theory Spec2Isabelle
  imports Main "HOL-Library.AList"
begin

section \<open>Data model of the pipeline board (src/app.jsx)\<close>

text \<open>
  Identifiers are JavaScript strings. A JSON value is what \<^verbatim>\<open>JSON.parse\<close> can produce.
  A number is carried as the text that JavaScript prints for it (\<^verbatim>\<open>0.001\<close> for the
  literal \<^verbatim>\<open>1e-3\<close>): the compiler never computes with a parameter, it only prints it.
  A literal too large for a double is parsed as an infinity, whose text is
  \<^verbatim>\<open>Infinity\<close> or \<^verbatim>\<open>-Infinity\<close>; \<^verbatim>\<open>NaN\<close> is covered too, although parsing never
  yields it.
  An object is the list of its own properties in enumeration order.
  The field \<open>nid\<close> is the source's \<^verbatim>\<open>id\<close> (renamed: \<open>id\<close> is the identity function of
  HOL); an absent \<^verbatim>\<open>label\<close> or \<^verbatim>\<open>params\<close> (JavaScript \<^verbatim>\<open>undefined\<close>) is \<open>None\<close>.
  Every node has an id and a \<^verbatim>\<open>data\<close> object with a \<^verbatim>\<open>type\<close>, and every edge a source
  and a target; the node types are compared as strings, as \<^verbatim>\<open>NODE_TYPES\<close> holds them.
  The node list and the edge list may hold repeated ids, dangling edges and cycles: the
  code accepts them, and a property that needs more says so.
\<close>

type_synonym ident = string

datatype json = JNull | JBool bool | JNum string | JStr string
  | JArr "json list" | JObj "(string \<times> json) list"

record node_data =
  label :: "string option"
  type :: string
  params :: "json option"
  summary :: string

record node =
  nid :: ident
  data :: node_data

record edge =
  source :: ident
  target :: ident

section \<open>topologicalSort\<close>

text \<open>
  The two \<^verbatim>\<open>Map\<close> objects of \<^verbatim>\<open>topologicalSort\<close> are association lists:
  \<^verbatim>\<open>m.get(k)\<close> is \<open>map_of m k\<close> and \<^verbatim>\<open>m.set(k, v)\<close> is \<open>AList.update k v m\<close> (replace in
  place, or append a new key). \<open>incoming_get\<close> is \<^verbatim>\<open>(incoming.get(k) || 0)\<close> and \<open>out_get\<close> is
  \<^verbatim>\<open>(out.get(k) || [])\<close>. The counters are integers: the loop can drive them below zero.
\<close>

type_synonym incoming_map = "(ident \<times> int) list"
type_synonym out_map = "(ident \<times> ident list) list"

definition incoming_get :: "incoming_map \<Rightarrow> ident \<Rightarrow> int" where
  "incoming_get m k = (case map_of m k of None \<Rightarrow> 0 | Some c \<Rightarrow> c)"

definition out_get :: "out_map \<Rightarrow> ident \<Rightarrow> ident list" where
  "out_get m k = (case map_of m k of None \<Rightarrow> [] | Some ts \<Rightarrow> ts)"

text \<open>The body of \<^verbatim>\<open>edges.forEach\<close> (lines 60-64).\<close>

definition add_edge :: "edge \<Rightarrow> incoming_map \<times> out_map \<Rightarrow> incoming_map \<times> out_map" where
  "add_edge e = (\<lambda>(incoming, out).
     (let out1 = (if map_of out (source e) = None then AList.update (source e) [] out else out);
          out2 = AList.update (source e) (out_get out1 (source e) @ [target e]) out1;
          incoming1 = AList.update (target e) (incoming_get incoming (target e) + 1) incoming
      in (incoming1, out2)))"

text \<open>The body of the inner \<^verbatim>\<open>forEach\<close> (lines 70-73): decrement, and push on reaching zero.\<close>

definition relax :: "ident \<Rightarrow> incoming_map \<times> ident list \<Rightarrow> incoming_map \<times> ident list" where
  "relax u = (\<lambda>(incoming, q).
     (let incoming1 = AList.update u (incoming_get incoming u - 1) incoming
      in (incoming1, if incoming_get incoming1 u = 0 then q @ [u] else q)))"

text \<open>
  The state of the \<^verbatim>\<open>while\<close> loop is (\<^verbatim>\<open>incoming\<close>, \<^verbatim>\<open>q\<close>, \<^verbatim>\<open>res\<close>); \<^verbatim>\<open>out\<close> is not
  changed by the loop. \<open>loop_body\<close> is one iteration (lines 68-73); on an empty queue the
  loop does not run its body.
\<close>

type_synonym loop_state = "incoming_map \<times> ident list \<times> ident list"

fun loop_body :: "out_map \<Rightarrow> loop_state \<Rightarrow> loop_state" where
  "loop_body out (incoming, [], res) = (incoming, [], res)"
| "loop_body out (incoming, v # q, res) =
     (let (incoming1, q1) = fold relax (out_get out v) (incoming, q)
      in (incoming1, q1, res @ [v]))"

text \<open>
  The measure of the loop: the length of the queue plus the number of keys whose counter is
  still positive (only those can be pushed later).
\<close>

definition pending :: "incoming_map \<Rightarrow> ident set" where
  "pending incoming = {k. 0 < incoming_get incoming k}"

definition loop_measure :: "loop_state \<Rightarrow> nat" where
  "loop_measure = (\<lambda>(incoming, q, res). length q + card (pending incoming))"

lemma pending_subset: "pending m \<subseteq> fst ` set m"
  by (auto simp: pending_def incoming_get_def split: option.splits
      dest: map_of_SomeD intro: rev_image_eqI)

lemma finite_pending: "finite (pending m)"
  by (rule finite_subset[OF pending_subset]) simp

lemma incoming_get_update:
  "incoming_get (AList.update k v m) k' = (if k' = k then v else incoming_get m k')"
  by (simp add: incoming_get_def update_conv')

lemma relax_measure:
  assumes r: "relax u (m, q) = (m', q')"
  shows "length q' + card (pending m') \<le> length q + card (pending m)"
proof -
  let ?c = "incoming_get m u"
  have m': "m' = AList.update u (?c - 1) m"
    using r by (simp add: relax_def Let_def)
  show ?thesis
  proof (cases "?c = 1")
    case True
    then have q': "q' = q @ [u]"
      using r by (auto simp: relax_def Let_def incoming_get_update)
    have "pending m' = pending m - {u}"
      using True by (auto simp: pending_def m' incoming_get_update)
    moreover have "u \<in> pending m"
      using True by (simp add: pending_def)
    ultimately have "card (pending m') = card (pending m) - 1" "card (pending m) > 0"
      using finite_pending[of m] by (auto simp: card_gt_0_iff)
    then show ?thesis using q' by simp
  next
    case False
    then have q': "q' = q"
      using r by (auto simp: relax_def Let_def incoming_get_update)
    have "pending m' \<subseteq> pending m"
      by (auto simp: pending_def m' incoming_get_update split: if_splits)
    then have "card (pending m') \<le> card (pending m)"
      by (rule card_mono[OF finite_pending])
    then show ?thesis using q' by simp
  qed
qed

lemma fold_relax_measure:
  "fold relax us (m, q) = (m', q') \<Longrightarrow>
   length q' + card (pending m') \<le> length q + card (pending m)"
proof (induction us arbitrary: m q)
  case Nil
  then show ?case by simp
next
  case (Cons u us)
  obtain m1 q1 where r: "relax u (m, q) = (m1, q1)"
    by (cases "relax u (m, q)")
  from Cons.prems r have "fold relax us (m1, q1) = (m', q')" by simp
  from Cons.IH[OF this] relax_measure[OF r] show ?case by linarith
qed

lemma loop_body_measure:
  assumes "q \<noteq> []"
  shows "loop_measure (loop_body out (m, q, res)) < loop_measure (m, q, res)"
proof -
  from assms obtain v q0 where q: "q = v # q0" by (cases q) auto
  obtain m1 q1 where f: "fold relax (out_get out v) (m, q0) = (m1, q1)"
    by (cases "fold relax (out_get out v) (m, q0)")
  from fold_relax_measure[OF f] show ?thesis
    by (simp add: q f loop_measure_def)
qed

text \<open>The \<^verbatim>\<open>while (q.length)\<close> loop (lines 67-74).\<close>

function topo_loop :: "out_map \<Rightarrow> loop_state \<Rightarrow> loop_state" where
  "topo_loop out (incoming, q, res) =
     (if q = [] then (incoming, q, res)
      else topo_loop out (loop_body out (incoming, q, res)))"
  by pat_completeness auto
termination
  by (relation "measure (\<lambda>(out, s). loop_measure s)") (auto simp: loop_body_measure)

text \<open>
  The state on entry to the loop (lines 58-66): both maps get one entry per node, the edges
  are registered, and the queue holds the ids of the nodes whose counter is zero, in the
  order of \<^verbatim>\<open>nodes\<close>.
\<close>

definition init_state :: "node list \<Rightarrow> edge list \<Rightarrow> out_map \<times> loop_state" where
  "init_state nodes edges =
     (let incoming0 = fold (\<lambda>n m. AList.update (nid n) 0 m) nodes [];
          out0 = fold (\<lambda>n m. AList.update (nid n) [] m) nodes [];
          (incoming, out) = fold add_edge edges (incoming0, out0);
          q = map nid (filter (\<lambda>n. incoming_get incoming (nid n) = 0) nodes)
      in (out, (incoming, q, [])))"

definition topologicalSort :: "node list \<Rightarrow> edge list \<Rightarrow> ident list" where
  "topologicalSort nodes edges =
     (let (out, s) = init_state nodes edges
      in snd (snd (topo_loop out s)))"

text \<open>
  Vocabulary for the properties: the number of edges into an id, the targets of the edges
  leaving an id (in the order of \<^verbatim>\<open>edges\<close>), and the components of a loop state.
\<close>

definition in_degree :: "edge list \<Rightarrow> ident \<Rightarrow> nat" where
  "in_degree edges u = length (filter (\<lambda>e. target e = u) edges)"

definition successors :: "edge list \<Rightarrow> ident \<Rightarrow> ident list" where
  "successors edges v = map target (filter (\<lambda>e. source e = v) edges)"

definition queue_of :: "loop_state \<Rightarrow> ident list" where
  "queue_of = (\<lambda>(incoming, q, res). q)"

definition res_of :: "loop_state \<Rightarrow> ident list" where
  "res_of = (\<lambda>(incoming, q, res). res)"

text \<open>
  \<open>index_of xs x\<close> is the position of the first \<open>x\<close> in \<open>xs\<close> (the length of \<open>xs\<close> when
  there is none). \<open>remaining_in edges res u\<close> counts the edges into \<open>u\<close> whose source is not
  yet in \<open>res\<close>. \<open>edge_rel\<close> is the relation the edges induce; a graph is acyclic when
  \<open>acyclic (edge_rel edges)\<close>.
\<close>

fun index_of :: "'a list \<Rightarrow> 'a \<Rightarrow> nat" where
  "index_of [] x = 0"
| "index_of (y # ys) x = (if x = y then 0 else Suc (index_of ys x))"

definition remaining_in :: "edge list \<Rightarrow> ident list \<Rightarrow> ident \<Rightarrow> nat" where
  "remaining_in edges res u =
     length (filter (\<lambda>e. target e = u \<and> source e \<notin> set res) edges)"

definition node_ids :: "node list \<Rightarrow> ident set" where
  "node_ids nodes = nid ` set nodes"

definition edge_targets :: "edge list \<Rightarrow> ident set" where
  "edge_targets edges = target ` set edges"

definition edge_rel :: "edge list \<Rightarrow> (ident \<times> ident) set" where
  "edge_rel edges = (\<lambda>e. (source e, target e)) ` set edges"

text \<open>
  The invariant of the loop when the node ids are pairwise distinct: no id is queued or
  output twice; every counter is the number of edges from sources not yet output; queued
  and output ids have counter zero; every known id with counter zero is queued or output;
  and every edge into an output id comes from an id output earlier.
\<close>

definition kahn_inv :: "node list \<Rightarrow> edge list \<Rightarrow> loop_state \<Rightarrow> bool" where
  "kahn_inv nodes edges = (\<lambda>(m, q, res).
     distinct (res @ q) \<and>
     (\<forall>u. incoming_get m u = int (remaining_in edges res u)) \<and>
     (\<forall>u \<in> set (res @ q). incoming_get m u = 0) \<and>
     (\<forall>u \<in> node_ids nodes \<union> edge_targets edges.
         incoming_get m u = 0 \<longrightarrow> u \<in> set (res @ q)) \<and>
     (\<forall>e \<in> set edges. target e \<in> set res \<longrightarrow>
         source e \<in> set res \<and> index_of res (source e) < index_of res (target e)))"

text \<open>Example graphs for the concrete instances below.\<close>

definition plain_node :: "ident \<Rightarrow> string \<Rightarrow> node" where
  "plain_node i t = \<lparr>nid = i, data = \<lparr>label = Some t, type = t, params = Some (JObj []), summary = []\<rparr>\<rparr>"

definition chain_nodes :: "node list" where
  "chain_nodes = [plain_node ''b'' ''Model'', plain_node ''a'' ''Data'', plain_node ''c'' ''Loss'']"

definition chain_edges :: "edge list" where
  "chain_edges = [\<lparr>source = ''a'', target = ''b''\<rparr>, \<lparr>source = ''b'', target = ''c''\<rparr>,
                  \<lparr>source = ''a'', target = ''b''\<rparr>]"

section \<open>JavaScript values and strings\<close>

text \<open>
  The line feed and the double quote, written by their codes. \<open>TypeError\<close> is the only
  exception the modelled code can raise; a function that can raise returns \<open>js_error + 'a\<close>.
\<close>

definition nl :: char where "nl = CHR 0x0A"
definition dq :: char where "dq = CHR 0x22"

datatype js_error = TypeError

text \<open>
  \<open>truthy\<close> is JavaScript's ToBoolean on a JSON value (the numbers zero, whose text is
  \<^verbatim>\<open>0\<close>, and \<^verbatim>\<open>NaN\<close> are falsy). \<open>or_default p d\<close> is \<^verbatim>\<open>p || d\<close> for a possibly absent \<^verbatim>\<open>p\<close>;
  \<open>get_prop v k\<close> is \<^verbatim>\<open>v.k\<close> for a key that no prototype defines (\<^verbatim>\<open>lr\<close>, \<^verbatim>\<open>epochs\<close>,
  \<^verbatim>\<open>batch_size\<close>): the own property of an object, \<^verbatim>\<open>undefined\<close> (\<open>None\<close>) otherwise.
  \<open>nullish_default v d\<close> is \<^verbatim>\<open>v ?? d\<close>; \<open>js_join\<close> is \<^verbatim>\<open>Array.prototype.join\<close> on strings.
\<close>

fun truthy :: "json \<Rightarrow> bool" where
  "truthy JNull = False"
| "truthy (JBool b) = b"
| "truthy (JNum t) = (t \<noteq> ''0'' \<and> t \<noteq> ''NaN'')"
| "truthy (JStr s) = (s \<noteq> [])"
| "truthy (JArr xs) = True"
| "truthy (JObj kvs) = True"

definition or_default :: "json option \<Rightarrow> json \<Rightarrow> json" where
  "or_default p d = (case p of None \<Rightarrow> d | Some v \<Rightarrow> if truthy v then v else d)"

fun get_prop :: "json \<Rightarrow> string \<Rightarrow> json option" where
  "get_prop (JObj kvs) k = map_of kvs k"
| "get_prop v k = None"

definition nullish_default :: "json option \<Rightarrow> json \<Rightarrow> json" where
  "nullish_default v d = (case v of None \<Rightarrow> d | Some JNull \<Rightarrow> d | Some x \<Rightarrow> x)"

fun js_join :: "string \<Rightarrow> string list \<Rightarrow> string" where
  "js_join sep [] = []"
| "js_join sep [x] = x"
| "js_join sep (x # y # ys) = x @ sep @ js_join sep (y # ys)"

text \<open>
  \<open>to_str\<close> is the conversion a template literal applies (\<^verbatim>\<open>`${v}`\<close>): an array is the
  comma-joined texts of its elements with \<^verbatim>\<open>null\<close> as the empty text; an object is
  \<^verbatim>\<open>[object Object]\<close>, unless it has an own property \<^verbatim>\<open>toString\<close>, which as JSON data
  is not callable and makes the conversion throw a TypeError.
\<close>

fun to_str :: "json \<Rightarrow> js_error + string"
  and join_elems :: "json list \<Rightarrow> js_error + string" where
  "to_str JNull = Inr ''null''"
| "to_str (JBool b) = Inr (if b then ''true'' else ''false'')"
| "to_str (JNum t) = Inr t"
| "to_str (JStr s) = Inr s"
| "to_str (JArr xs) = join_elems xs"
| "to_str (JObj kvs) =
     (if map_of kvs ''toString'' = None then Inr ''[object Object]'' else Inl TypeError)"
| "join_elems [] = Inr []"
| "join_elems (x # xs) =
     (case (if x = JNull then Inr [] else to_str x) of
        Inl e \<Rightarrow> Inl e
      | Inr s \<Rightarrow> (if xs = [] then Inr s
                  else case join_elems xs of Inl e \<Rightarrow> Inl e | Inr r \<Rightarrow> Inr (s @ '','' @ r)))"

text \<open>
  \<open>quote\<close> is the string quoting of \<^verbatim>\<open>JSON.stringify\<close>, and \<open>stringify ind v\<close> is
  \<^verbatim>\<open>JSON.stringify(v, null, 2)\<close> at the current indentation \<open>ind\<close>. A number that is
  not finite is printed as \<^verbatim>\<open>null\<close> there, while a template prints its text
  (\<open>to_str\<close>).
\<close>

definition hex_digit :: "nat \<Rightarrow> char" where
  "hex_digit n = ''0123456789abcdef'' ! n"

definition quote_char :: "char \<Rightarrow> string" where
  "quote_char c =
     (if c = CHR 0x08 then [CHR 0x5C, CHR ''b'']
      else if c = CHR 0x09 then [CHR 0x5C, CHR ''t'']
      else if c = CHR 0x0A then [CHR 0x5C, CHR ''n'']
      else if c = CHR 0x0C then [CHR 0x5C, CHR ''f'']
      else if c = CHR 0x0D then [CHR 0x5C, CHR ''r'']
      else if c = CHR 0x22 then [CHR 0x5C, CHR 0x22]
      else if c = CHR 0x5C then [CHR 0x5C, CHR 0x5C]
      else if of_char c < (32::nat)
        then [CHR 0x5C] @ ''u00'' @ [hex_digit (of_char c div 16), hex_digit (of_char c mod 16)]
      else [c])"

definition quote :: "string \<Rightarrow> string" where
  "quote s = [dq] @ concat (map quote_char s) @ [dq]"


fun stringify :: "string \<Rightarrow> json \<Rightarrow> string" where
  "stringify ind JNull = ''null''"
| "stringify ind (JBool b) = (if b then ''true'' else ''false'')"
| "stringify ind (JNum t) =
     (if t = ''Infinity'' \<or> t = ''-Infinity'' \<or> t = ''NaN'' then ''null'' else t)"
| "stringify ind (JStr s) = quote s"
| "stringify ind (JArr xs) =
     (if xs = [] then ''[]''
      else ''['' @ [nl] @ ind @ ''  ''
           @ js_join ('','' @ [nl] @ ind @ ''  '') (map (stringify (ind @ ''  '')) xs)
           @ [nl] @ ind @ '']'')"
| "stringify ind (JObj kvs) =
     (if kvs = [] then ''{}''
      else ''{'' @ [nl] @ ind @ ''  ''
           @ js_join ('','' @ [nl] @ ind @ ''  '')
               (map (\<lambda>kv. quote (fst kv) @ '': '' @ stringify (ind @ ''  '') (snd kv)) kvs)
           @ [nl] @ ind @ ''}'')"

text \<open>
  \<open>split_nl s\<close> is \<^verbatim>\<open>s.split(NL)\<close>, and \<open>params_comment p\<close> is the template
  \<^verbatim>\<open># params: ${JSON.stringify(p, null, 2).split(NL).join(NL + "# ")}\<close>.
\<close>

fun split_nl :: "string \<Rightarrow> string list" where
  "split_nl [] = [[]]"
| "split_nl (c # cs) =
     (if c = nl then [] # split_nl cs
      else (case split_nl cs of [] \<Rightarrow> [[c]] | l # ls \<Rightarrow> (c # l) # ls))"

definition params_comment :: "json \<Rightarrow> string" where
  "params_comment p = ''# params: '' @ js_join ([nl] @ ''# '') (split_nl (stringify [] p))"

text \<open>
  \<open>replace_nonword s\<close> is \<^verbatim>\<open>s.replace(/\W+/g, "_")\<close>: every maximal run of characters
  other than letters, digits and the underscore becomes one underscore. \<open>show_nat\<close> prints
  an array index. \<open>derive_name l prefix i\<close> is
  \<^verbatim>\<open>label?.replace(/\W+/g, "_") || `prefix${i}`\<close> and \<open>label_text l\<close> is \<^verbatim>\<open>`${label}`\<close>.
\<close>

definition word_char :: "char \<Rightarrow> bool" where
  "word_char c = (c \<in> set ''abcdefghijklmnopqrstuvwxyzABCDEFGHIJKLMNOPQRSTUVWXYZ0123456789_'')"

function replace_nonword :: "string \<Rightarrow> string" where
  "replace_nonword [] = []"
| "replace_nonword (c # cs) =
     (if word_char c then c # replace_nonword cs
      else CHR ''_'' # replace_nonword (dropWhile (\<lambda>x. \<not> word_char x) cs))"
  by pat_completeness auto
termination
  by (relation "measure length") (auto simp: length_dropWhile_le less_Suc_eq_le)

function show_nat :: "nat \<Rightarrow> string" where
  "show_nat n =
     (if n < 10 then [''0123456789'' ! n]
      else show_nat (n div 10) @ [''0123456789'' ! (n mod 10)])"
  by pat_completeness auto
termination
  by (relation "measure id") auto

definition derive_name :: "string option \<Rightarrow> string \<Rightarrow> nat \<Rightarrow> string" where
  "derive_name l prefix i =
     (case l of
        None \<Rightarrow> prefix @ show_nat i
      | Some s \<Rightarrow> (if replace_nonword s = [] then prefix @ show_nat i else replace_nonword s))"

definition label_text :: "string option \<Rightarrow> string" where
  "label_text l = (case l of None \<Rightarrow> ''undefined'' | Some s \<Rightarrow> s)"

section \<open>generatePyTorchCode\<close>

text \<open>
  \<^verbatim>\<open>byId\<close> is a plain object built by \<^verbatim>\<open>Object.fromEntries\<close>, so \<^verbatim>\<open>byId[id]\<close> is the
  node stored last under that id, or else what the object inherits from
  \<^verbatim>\<open>Object.prototype\<close> under that name (a function, or the prototype itself for
  \<^verbatim>\<open>__proto__\<close>), or else \<^verbatim>\<open>undefined\<close>. An inherited member is truthy, so
  \<^verbatim>\<open>.filter(Boolean)\<close> keeps it in \<^verbatim>\<open>orderedNodes\<close> (lines 148-150).
\<close>

datatype js_value = Node node | Inherited | Undefined

definition object_prototype_names :: "string list" where
  "object_prototype_names =
     [''constructor'', ''hasOwnProperty'', ''isPrototypeOf'', ''propertyIsEnumerable'',
      ''toLocaleString'', ''toString'', ''valueOf'', ''__proto__'',
      ''__defineGetter__'', ''__defineSetter__'', ''__lookupGetter__'', ''__lookupSetter__'']"

definition byId_get :: "node list \<Rightarrow> ident \<Rightarrow> js_value" where
  "byId_get nodes i =
     (case map_of (rev (map (\<lambda>n. (nid n, n)) nodes)) i of
        Some n \<Rightarrow> Node n
      | None \<Rightarrow> if i \<in> set object_prototype_names then Inherited else Undefined)"

definition orderedNodes :: "node list \<Rightarrow> edge list \<Rightarrow> js_value list" where
  "orderedNodes nodes edges =
     filter (\<lambda>v. v \<noteq> Undefined) (map (byId_get nodes) (topologicalSort nodes edges))"

text \<open>
  The first use of \<^verbatim>\<open>orderedNodes\<close> (line 164) reads \<^verbatim>\<open>n.data.type\<close> of every element.
  An inherited member has no \<^verbatim>\<open>data\<close> property, so reading \<^verbatim>\<open>.type\<close> of it throws a
  TypeError; otherwise every element is a node.
\<close>

fun node_values :: "js_value list \<Rightarrow> js_error + node list" where
  "node_values [] = Inr []"
| "node_values (Node n # vs) =
     (case node_values vs of Inl e \<Rightarrow> Inl e | Inr ns \<Rightarrow> Inr (n # ns))"
| "node_values (v # vs) = Inl TypeError"

text \<open>
  \<^verbatim>\<open>orderedNodes.filter((n) => n.data.type === t)\<close> and
  \<^verbatim>\<open>orderedNodes.find((n) => n.data.type === t)\<close>.
\<close>

definition of_type :: "string \<Rightarrow> node list \<Rightarrow> node list" where
  "of_type t ns = filter (\<lambda>n. type (data n) = t) ns"

definition find_type :: "string \<Rightarrow> node list \<Rightarrow> node option" where
  "find_type t ns = find (\<lambda>n. type (data n) = t) ns"

text \<open>
  The lines pushed, block by block (lines 152-271). A pushed line feed is the
  one-character string \<open>[nl]\<close>.
\<close>

definition header_block :: "string list" where
  "header_block =
     [''# Auto-generated by ML Pipeline Visual Board'',
      ''import torch'',
      ''import torch.nn as nn'',
      ''import torch.optim as optim'',
      ''from torch.utils.data import DataLoader'',
      [nl],
      ''# ---- Config ----'',
      ''device = '' @ [dq] @ ''cuda'' @ [dq] @ '' if torch.cuda.is_available() else '' @ [dq] @ ''cpu'' @ [dq],
      [nl]]"

definition data_lines :: "nat \<times> node \<Rightarrow> string list" where
  "data_lines = (\<lambda>(i, n).
     [''# Data: '' @ label_text (label (data n)),
      derive_name (label (data n)) ''dataset_'' i @ '' = None  # TODO: load your dataset here'',
      params_comment (or_default (params (data n)) (JObj []))])"

definition data_block :: "node list \<Rightarrow> string list" where
  "data_block ns =
     (let dataNodes = of_type ''Data'' ns
      in if dataNodes = [] then []
         else concat (map data_lines (enumerate 0 dataNodes)) @ [[nl]])"

definition transform_lines :: "nat \<times> node \<Rightarrow> string list" where
  "transform_lines = (\<lambda>(i, n).
     [derive_name (label (data n)) ''transform_'' i @ '' = nn.Identity()  # TODO: implement transform'',
      params_comment (or_default (params (data n)) (JObj []))])"

definition transform_block :: "node list \<Rightarrow> string list" where
  "transform_block ns =
     (let tfNodes = of_type ''Transform'' ns
      in if tfNodes = [] then []
         else [''# Transforms''] @ concat (map transform_lines (enumerate 0 tfNodes)) @ [[nl]])"

definition default_split_params :: json where
  "default_split_params =
     JObj [(''train'', JNum ''0.8''), (''val'', JNum ''0.1''), (''test'', JNum ''0.1''),
           (''shuffle'', JBool True)]"

definition split_lines :: "json \<Rightarrow> string list" where
  "split_lines p =
     [''# Split'',
      ''train_ds, val_ds, test_ds = None, None, None  # TODO: split your dataset according to params'',
      params_comment p,
      [nl]]"

definition split_block :: "node list \<Rightarrow> string list" where
  "split_block ns =
     (case find_type ''Split'' ns of
        None \<Rightarrow> []
      | Some split \<Rightarrow> split_lines (or_default (params (data split)) default_split_params))"

definition model_block :: "node list \<Rightarrow> string list" where
  "model_block ns =
     (case find_type ''Model'' ns of
        None \<Rightarrow> []
      | Some model \<Rightarrow>
          [''# Model: '' @ (case label (data model) of None \<Rightarrow> ''Model''
                            | Some l \<Rightarrow> if l = [] then ''Model'' else l),
           ''class GeneratedModel(nn.Module):'',
           ''    def __init__(self):'',
           ''        super().__init__()'',
           ''        # TODO: build layers based on params'',
           ''        self.net = nn.Sequential(nn.Flatten(), nn.Linear(784, 128), nn.ReLU(), nn.Linear(128, 10))'',
           ''    def forward(self, x):'',
           ''        return self.net(x)'',
           ''model = GeneratedModel().to(device)'',
           params_comment (or_default (params (data model)) (JObj [])),
           [nl]])"

definition loss_block :: "node list \<Rightarrow> string list" where
  "loss_block ns =
     (case find_type ''Loss'' ns of
        None \<Rightarrow> []
      | Some loss \<Rightarrow> [''# Loss'', ''criterion = nn.CrossEntropyLoss()'', [nl]])"

text \<open>
  \<open>param_text p k d\<close> is the template \<^verbatim>\<open>${p.k ?? d}\<close>.
\<close>

definition param_text :: "json \<Rightarrow> string \<Rightarrow> json \<Rightarrow> js_error + string" where
  "param_text p k d = to_str (nullish_default (get_prop p k) d)"

definition optimizer_lines :: "string \<Rightarrow> string list" where
  "optimizer_lines lr =
     [''# Optimizer'',
      ''optimizer = optim.Adam(model.parameters(), lr='' @ lr @ '')'',
      [nl]]"

definition optimizer_block :: "node list \<Rightarrow> js_error + string list" where
  "optimizer_block ns =
     (case find_type ''Optimizer'' ns of
        None \<Rightarrow> Inr []
      | Some opt \<Rightarrow>
          (let p = or_default (params (data opt)) (JObj [(''lr'', JNum ''0.001'')])
           in case param_text p ''lr'' (JNum ''0.001'') of
                Inl e \<Rightarrow> Inl e
              | Inr lr \<Rightarrow> Inr (optimizer_lines lr)))"

definition trainer_lines :: "string \<Rightarrow> string \<Rightarrow> string list" where
  "trainer_lines batch_size epochs =
     [''# Dataloaders'',
      ''train_loader = DataLoader(train_ds, batch_size='' @ batch_size @ '', shuffle=True)  # TODO'',
      ''val_loader = DataLoader(val_ds, batch_size='' @ batch_size @ '')  # TODO'',
      [nl],
      ''# Train Loop'',
      ''for epoch in range('' @ epochs @ ''):'',
      ''    model.train()'',
      ''    for x, y in train_loader:'',
      ''        x, y = x.to(device), y.to(device)'',
      ''        optimizer.zero_grad()'',
      ''        out = model(x)'',
      ''        loss = criterion(out, y)'',
      ''        loss.backward()'',
      ''        optimizer.step()'',
      ''    print(f'' @ [dq] @ ''epoch {epoch+1}: ok'' @ [dq] @ '')'']"

definition trainer_block :: "node list \<Rightarrow> js_error + string list" where
  "trainer_block ns =
     (case find_type ''Trainer'' ns of
        None \<Rightarrow> Inr []
      | Some trainer \<Rightarrow>
          (let p = or_default (params (data trainer))
                     (JObj [(''epochs'', JNum ''3''), (''batch_size'', JNum ''64'')])
           in case param_text p ''batch_size'' (JNum ''64'') of
                Inl e \<Rightarrow> Inl e
              | Inr batch_size \<Rightarrow>
                  (case param_text p ''epochs'' (JNum ''3'') of
                     Inl e \<Rightarrow> Inl e
                   | Inr epochs \<Rightarrow> Inr (trainer_lines batch_size epochs))))"

definition metric_block :: "node list \<Rightarrow> string list" where
  "metric_block ns =
     (if of_type ''Metric'' ns = [] then []
      else [[nl] @ ''# Metrics (evaluate on val_loader)'',
            ''model.eval()'',
            ''correct = 0; total = 0'',
            ''with torch.no_grad():'',
            ''    for x, y in val_loader:'',
            ''        x, y = x.to(device), y.to(device)'',
            ''        out = model(x)'',
            ''        pred = out.argmax(dim=1)'',
            ''        correct += (pred == y).sum().item()'',
            ''        total += y.size(0)'',
            ''print('' @ [dq] @ ''val/accuracy:'' @ [dq] @ '', correct/total if total else 0.0)''])"

definition footer_block :: "string \<Rightarrow> string list" where
  "footer_block projectName =
     [[nl] @ ''# Save model'',
      ''torch.save(model.state_dict(), '' @ [dq] @ projectName @ ''.pt'' @ [dq] @ '')'']"

text \<open>
  The array \<^verbatim>\<open>lines\<close> at the end of the function, and the function itself, which
  returns \<^verbatim>\<open>lines.join\<close> with a line feed as separator. The optimizer and trainer
  blocks are the only ones whose templates can throw.
\<close>

definition emit_lines :: "node list \<Rightarrow> string \<Rightarrow> js_error + string list" where
  "emit_lines ns projectName =
     (case optimizer_block ns of
        Inl e \<Rightarrow> Inl e
      | Inr opt_ls \<Rightarrow>
          (case trainer_block ns of
             Inl e \<Rightarrow> Inl e
           | Inr trainer_ls \<Rightarrow>
               Inr (header_block @ data_block ns @ transform_block ns @ split_block ns
                    @ model_block ns @ loss_block ns @ opt_ls @ trainer_ls
                    @ metric_block ns @ footer_block projectName)))"

definition generatePyTorchCode :: "node list \<Rightarrow> edge list \<Rightarrow> string \<Rightarrow> js_error + string" where
  "generatePyTorchCode nodes edges projectName =
     (case node_values (orderedNodes nodes edges) of
        Inl e \<Rightarrow> Inl e
      | Inr ns \<Rightarrow>
          (case emit_lines ns projectName of
             Inl e \<Rightarrow> Inl e
           | Inr lines \<Rightarrow> Inr (js_join [nl] lines)))"

text \<open>
  The end-to-end scenario of the specification as an example graph.
\<close>

definition mk_node :: "ident \<Rightarrow> string \<Rightarrow> string \<Rightarrow> json \<Rightarrow> node" where
  "mk_node i t l p = \<lparr>nid = i, data = \<lparr>label = Some l, type = t, params = Some p, summary = []\<rparr>\<rparr>"

definition e2e_nodes :: "node list" where
  "e2e_nodes =
     [mk_node ''n1'' ''Data'' ''Train'' (JObj []),
      mk_node ''n2'' ''Split'' ''Split'' (JObj [(''train'', JNum ''0.7''), (''val'', JNum ''0.15''), (''test'', JNum ''0.15'')]),
      mk_node ''n3'' ''Model'' ''Net'' (JObj []),
      mk_node ''n4'' ''Loss'' ''Loss'' (JObj []),
      mk_node ''n5'' ''Optimizer'' ''Optimizer'' (JObj [(''lr'', JNum ''0.01'')]),
      mk_node ''n6'' ''Trainer'' ''Trainer'' (JObj [(''epochs'', JNum ''5''), (''batch_size'', JNum ''32'')])]"

definition e2e_edges :: "edge list" where
  "e2e_edges =
     [\<lparr>source = ''n1'', target = ''n2''\<rparr>, \<lparr>source = ''n2'', target = ''n3''\<rparr>,
      \<lparr>source = ''n3'', target = ''n4''\<rparr>, \<lparr>source = ''n4'', target = ''n5''\<rparr>,
      \<lparr>source = ''n5'', target = ''n6''\<rparr>]"

section \<open>validateGraph, buildCode and downloadCode\<close>

text \<open>
  The messages of the validator, as the UTF-8 bytes of the Russian texts of lines 317-324
  and 366 (no Model node; no Loss node; no Optimizer node; cycle found in the graph;
  graph errors).
\<close>

definition msg_no_model :: string where
  "msg_no_model =
     [CHR 0xD0, CHR 0x9D, CHR 0xD0, CHR 0xB5, CHR 0xD1, CHR 0x82, CHR 0x20,
      CHR 0xD1, CHR 0x83, CHR 0xD0, CHR 0xB7, CHR 0xD0, CHR 0xBB, CHR 0xD0, CHR 0xB0]
     @ '' Model''"

definition msg_no_loss :: string where
  "msg_no_loss =
     [CHR 0xD0, CHR 0x9D, CHR 0xD0, CHR 0xB5, CHR 0xD1, CHR 0x82, CHR 0x20,
      CHR 0xD1, CHR 0x83, CHR 0xD0, CHR 0xB7, CHR 0xD0, CHR 0xBB, CHR 0xD0, CHR 0xB0]
     @ '' Loss''"

definition msg_no_optimizer :: string where
  "msg_no_optimizer =
     [CHR 0xD0, CHR 0x9D, CHR 0xD0, CHR 0xB5, CHR 0xD1, CHR 0x82, CHR 0x20,
      CHR 0xD1, CHR 0x83, CHR 0xD0, CHR 0xB7, CHR 0xD0, CHR 0xBB, CHR 0xD0, CHR 0xB0]
     @ '' Optimizer''"

definition msg_cycle :: string where
  "msg_cycle =
     [CHR 0xD0, CHR 0x9E, CHR 0xD0, CHR 0xB1, CHR 0xD0, CHR 0xBD, CHR 0xD0, CHR 0xB0,
      CHR 0xD1, CHR 0x80, CHR 0xD1, CHR 0x83, CHR 0xD0, CHR 0xB6, CHR 0xD0, CHR 0xB5,
      CHR 0xD0, CHR 0xBD, CHR 0x20,
      CHR 0xD1, CHR 0x86, CHR 0xD0, CHR 0xB8, CHR 0xD0, CHR 0xBA, CHR 0xD0, CHR 0xBB, CHR 0x20,
      CHR 0xD0, CHR 0xB2, CHR 0x20,
      CHR 0xD0, CHR 0xB3, CHR 0xD1, CHR 0x80, CHR 0xD0, CHR 0xB0, CHR 0xD1, CHR 0x84,
      CHR 0xD0, CHR 0xB5]"

definition msg_errors_header :: string where
  "msg_errors_header =
     ''# '' @
     [CHR 0xD0, CHR 0x9E, CHR 0xD1, CHR 0x88, CHR 0xD0, CHR 0xB8, CHR 0xD0, CHR 0xB1,
      CHR 0xD0, CHR 0xBA, CHR 0xD0, CHR 0xB8, CHR 0x20,
      CHR 0xD0, CHR 0xB3, CHR 0xD1, CHR 0x80, CHR 0xD0, CHR 0xB0, CHR 0xD1, CHR 0x84,
      CHR 0xD0, CHR 0xB0]
     @ '':''"

text \<open>
  \<^verbatim>\<open>validateGraph\<close> (lines 314-327), with the component's \<^verbatim>\<open>nodes\<close> and \<^verbatim>\<open>edges\<close>
  as parameters.
\<close>

record validation =
  ok :: bool
  errors :: "string list"

definition typeCount :: "node list \<Rightarrow> string \<Rightarrow> nat" where
  "typeCount nodes t = length (filter (\<lambda>n. type (data n) = t) nodes)"

definition validateGraph :: "node list \<Rightarrow> edge list \<Rightarrow> validation" where
  "validateGraph nodes edges =
     (let errors1 = (if typeCount nodes ''Model'' = 0 then [msg_no_model] else []);
          errors2 = errors1 @ (if typeCount nodes ''Loss'' = 0 then [msg_no_loss] else []);
          errors3 = errors2 @ (if typeCount nodes ''Optimizer'' = 0 then [msg_no_optimizer] else [])
      in if errors3 \<noteq> [] then \<lparr>ok = False, errors = errors3\<rparr>
         else (let order = topologicalSort nodes edges;
                   errors4 = errors3 @ (if length order \<noteq> length nodes then [msg_cycle] else [])
               in \<lparr>ok = (errors4 = []), errors = errors4\<rparr>))"

text \<open>
  The state of the component that the handlers read and write. A handler sees the state
  of the render that created it: \<^verbatim>\<open>setCode\<close> changes the state of the next render only,
  so inside \<^verbatim>\<open>downloadCode\<close> the variable \<^verbatim>\<open>code\<close> is still the old text after
  \<^verbatim>\<open>buildCode()\<close> has returned. \<open>buildCode\<close> returns the next state, or the
  exception it throws (always before its \<^verbatim>\<open>setCode\<close>, so the state is unchanged).
  \<open>downloadCode\<close> returns the next state together with the file it hands to
  \<^verbatim>\<open>download\<close> (name and text) or the exception it throws.
\<close>

record board =
  board_nodes :: "node list"
  board_edges :: "edge list"
  code :: string
  projectName :: string

definition error_comment :: "string list \<Rightarrow> string" where
  "error_comment errs = msg_errors_header @ [nl] @ ''# - '' @ js_join ([nl] @ ''# - '') errs"

definition buildCode :: "board \<Rightarrow> js_error + board" where
  "buildCode b =
     (let v = validateGraph (board_nodes b) (board_edges b)
      in if \<not> ok v then Inr (b\<lparr>code := error_comment (errors v)\<rparr>)
         else (case generatePyTorchCode (board_nodes b) (board_edges b) (projectName b) of
                 Inl e \<Rightarrow> Inl e
               | Inr text \<Rightarrow> Inr (b\<lparr>code := text\<rparr>)))"

type_synonym download = "string \<times> string"

definition downloadCode :: "board \<Rightarrow> board \<times> (js_error + download)" where
  "downloadCode b =
     (case (if code b = [] then buildCode b else Inr b) of
        Inl e \<Rightarrow> (b, Inl e)
      | Inr b' \<Rightarrow>
          (b',
           case (if code b \<noteq> [] then Inr (code b)
                 else generatePyTorchCode (board_nodes b) (board_edges b) (projectName b)) of
             Inl e \<Rightarrow> Inl e
           | Inr text \<Rightarrow>
               Inr ((if projectName b = [] then ''project'' else projectName b) @ ''.py'', text)))"

definition empty_board :: board where
  "empty_board = \<lparr>board_nodes = [], board_edges = [], code = [], projectName = ''project''\<rparr>"

text \<open>
  A required stage is present when some node has that type; a graph with a self loop.
\<close>

definition stage_present :: "node list \<Rightarrow> string \<Rightarrow> bool" where
  "stage_present nodes t = (t \<in> (\<lambda>n. type (data n)) ` set nodes)"

definition cyclic_nodes :: "node list" where
  "cyclic_nodes = [mk_node ''a'' ''Data'' ''A'' (JObj [])]"

definition cyclic_edges :: "edge list" where
  "cyclic_edges = [\<lparr>source = ''a'', target = ''a''\<rparr>]"

text \<open>
  The learning rate of the optimizer line. \<open>spec_lr\<close> follows the words of the
  specification: the value of \<^verbatim>\<open>params.lr\<close> when it is a number, \<^verbatim>\<open>1e-3\<close> when it is
  absent or not a number. \<open>lr_value\<close> is the amended reading: the value of
  \<^verbatim>\<open>params.lr\<close> whatever its type when \<^verbatim>\<open>params\<close> is an object that has it and it is
  not \<^verbatim>\<open>null\<close>, and \<^verbatim>\<open>1e-3\<close> otherwise.
\<close>

definition spec_lr :: "json option \<Rightarrow> json" where
  "spec_lr ps =
     (case ps of
        Some (JObj kvs) \<Rightarrow>
          (case map_of kvs ''lr'' of Some (JNum t) \<Rightarrow> JNum t | _ \<Rightarrow> JNum ''0.001'')
      | _ \<Rightarrow> JNum ''0.001'')"

definition lr_value :: "json option \<Rightarrow> json" where
  "lr_value ps =
     (case ps of
        Some (JObj kvs) \<Rightarrow>
          (case map_of kvs ''lr'' of
             None \<Rightarrow> JNum ''0.001''
           | Some v \<Rightarrow> if v = JNull then JNum ''0.001'' else v)
      | _ \<Rightarrow> JNum ''0.001'')"

text \<open>
  The node list without its Split nodes: what the other blocks of the script are read
  from when no Split node contributes to them.
\<close>

definition without_split :: "node list \<Rightarrow> node list" where
  "without_split ns = filter (\<lambda>n. type (data n) \<noteq> ''Split'') ns"

text \<open>
  The parameters of the split block in the words of the specification: the entries of
  \<^verbatim>\<open>params\<close>, with the default supplied for each entry that is absent.
\<close>

definition spec_split_params :: "json option \<Rightarrow> json" where
  "spec_split_params ps =
     (case ps of
        Some (JObj kvs) \<Rightarrow>
          (case default_split_params of
             JObj ds \<Rightarrow> JObj (kvs @ filter (\<lambda>d. map_of kvs (fst d) = None) ds)
           | _ \<Rightarrow> JObj kvs)
      | _ \<Rightarrow> default_split_params)"

text \<open>
  Example graphs: an Optimizer whose \<^verbatim>\<open>lr\<close> is a string; a Split node with empty
  \<^verbatim>\<open>params\<close>; two Split nodes, the second of the node list first in dependency order.
\<close>

definition lr_string_nodes :: "node list" where
  "lr_string_nodes =
     [mk_node ''m'' ''Model'' ''Net'' (JObj []),
      mk_node ''l'' ''Loss'' ''Loss'' (JObj []),
      mk_node ''o'' ''Optimizer'' ''Adam'' (JObj [(''lr'', JStr ''fast'')])]"

definition empty_split_nodes :: "node list" where
  "empty_split_nodes =
     [mk_node ''s'' ''Split'' ''Split'' (JObj []),
      mk_node ''m'' ''Model'' ''Net'' (JObj []),
      mk_node ''l'' ''Loss'' ''Loss'' (JObj []),
      mk_node ''o'' ''Optimizer'' ''Adam'' (JObj [])]"

definition two_split_nodes :: "node list" where
  "two_split_nodes =
     [mk_node ''m'' ''Model'' ''Net'' (JObj []),
      mk_node ''s2'' ''Split'' ''Second'' (JObj [(''train'', JNum ''0.5'')]),
      mk_node ''l'' ''Loss'' ''Loss'' (JObj []),
      mk_node ''o'' ''Optimizer'' ''Adam'' (JObj []),
      mk_node ''s1'' ''Split'' ''First'' (JObj [(''train'', JNum ''0.9'')])]"

definition two_split_edges :: "edge list" where
  "two_split_edges = [\<lparr>source = ''s1'', target = ''s2''\<rparr>]"

section \<open>Properties of topologicalSort\<close>

subsection \<open>The state on entry to the loop\<close>

lemma incoming_get_Nil: "incoming_get [] u = 0"
  by (simp add: incoming_get_def)

lemma out_get_Nil: "out_get [] u = []"
  by (simp add: out_get_def)

lemma out_get_update:
  "out_get (AList.update k v m) k' = (if k' = k then v else out_get m k')"
  by (simp add: out_get_def update_conv')

lemma incoming_get_zero_fold:
  "(\<And>u. incoming_get m u = 0) \<Longrightarrow>
   incoming_get (fold (\<lambda>n m. AList.update (nid n) 0 m) nodes m) u = 0"
  by (induction nodes arbitrary: m) (simp_all add: incoming_get_update)

lemma out_get_empty_fold:
  "(\<And>u. out_get m u = []) \<Longrightarrow>
   out_get (fold (\<lambda>n m. AList.update (nid n) [] m) nodes m) u = []"
  by (induction nodes arbitrary: m) (simp_all add: out_get_update)

lemma fold_add_edge_incoming:
  "incoming_get (fst (fold add_edge edges (m, out))) u = incoming_get m u + int (in_degree edges u)"
proof (induction edges arbitrary: m out)
  case Nil
  then show ?case by (simp add: in_degree_def)
next
  case (Cons e es)
  obtain m1 out1 where a: "add_edge e (m, out) = (m1, out1)"
    by (cases "add_edge e (m, out)")
  then have m1: "m1 = AList.update (target e) (incoming_get m (target e) + 1) m"
    by (simp add: add_edge_def Let_def)
  have "incoming_get (fst (fold add_edge (e # es) (m, out))) u
      = incoming_get m1 u + int (in_degree es u)"
    using Cons.IH[of m1 out1] a by simp
  also have "\<dots> = incoming_get m u + int (in_degree (e # es) u)"
    by (simp add: m1 incoming_get_update in_degree_def)
  finally show ?case .
qed

lemma fold_add_edge_out:
  "out_get (snd (fold add_edge edges (m, out))) v = out_get out v @ successors edges v"
proof (induction edges arbitrary: m out)
  case Nil
  then show ?case by (simp add: successors_def)
next
  case (Cons e es)
  obtain m1 out1 where a: "add_edge e (m, out) = (m1, out1)"
    by (cases "add_edge e (m, out)")
  then have o1: "out_get out1 v = (if v = source e then out_get out v @ [target e] else out_get out v)"
    by (auto simp: add_edge_def Let_def out_get_update)
       (auto simp: out_get_def)
  have "out_get (snd (fold add_edge (e # es) (m, out))) v = out_get out1 v @ successors es v"
    using Cons.IH[of m1 out1] a by simp
  also have "\<dots> = out_get out v @ successors (e # es) v"
    by (simp add: o1 successors_def)
  finally show ?case .
qed

lemma init_state_eq:
  assumes "init_state nodes edges = (out, (m, q, res))"
  shows "incoming_get m u = int (in_degree edges u)"
    and "out_get out v = successors edges v"
    and "q = map nid (filter (\<lambda>n. in_degree edges (nid n) = 0) nodes)"
    and "res = []"
proof -
  let ?m0 = "fold (\<lambda>n m. AList.update (nid n) 0 m) nodes []"
  let ?o0 = "fold (\<lambda>n m. AList.update (nid n) [] m) nodes []"
  have m: "m = fst (fold add_edge edges (?m0, ?o0))"
    and out: "out = snd (fold add_edge edges (?m0, ?o0))"
    and q: "q = map nid (filter (\<lambda>n. incoming_get m (nid n) = 0) nodes)"
    and res: "res = []"
    using assms by (auto simp: init_state_def Let_def split: prod.splits)
  show 1: "incoming_get m u = int (in_degree edges u)" for u
    unfolding m fold_add_edge_incoming
    by (simp add: incoming_get_zero_fold incoming_get_Nil)
  show "out_get out v = successors edges v"
    unfolding out fold_add_edge_out
    by (simp add: out_get_empty_fold out_get_Nil)
  show "q = map nid (filter (\<lambda>n. in_degree edges (nid n) = 0) nodes)"
    unfolding q by (simp add: 1)
  show "res = []" by (rule res)
qed

lemma init_measure:
  assumes "init_state nodes edges = (out, s)"
  shows "loop_measure s \<le> length nodes + length edges"
proof -
  obtain m q res where s: "s = (m, q, res)" by (cases s)
  note i = init_state_eq[OF assms[unfolded s]]
  have "pending m \<subseteq> target ` set edges"
  proof
    fix u assume "u \<in> pending m"
    then have "0 < in_degree edges u" by (simp add: pending_def i(1))
    then have "filter (\<lambda>e. target e = u) edges \<noteq> []" by (auto simp: in_degree_def)
    then obtain e where "e \<in> set edges" "target e = u"
      by (auto simp: filter_empty_conv)
    then show "u \<in> target ` set edges" by auto
  qed
  then have "card (pending m) \<le> card (target ` set edges)"
    by (intro card_mono) auto
  also have "\<dots> \<le> length edges"
    by (metis card_image_le card_length le_trans List.finite_set)
  finally have "card (pending m) \<le> length edges" .
  moreover have "length q \<le> length nodes" by (simp add: i(3))
  ultimately show ?thesis by (simp add: s loop_measure_def)
qed

lemma loop_body_res: "length (res_of (loop_body out s)) \<le> Suc (length (res_of s))"
proof -
  obtain m q res where s: "s = (m, q, res)" by (cases s)
  show ?thesis
    by (cases q) (simp_all add: s res_of_def split: prod.splits)
qed

lemma funpow_loop_body_res:
  "length (res_of ((loop_body out ^^ k) s)) \<le> length (res_of s) + k"
proof (induction k)
  case 0
  then show ?case by simp
next
  case (Suc k)
  have "length (res_of ((loop_body out ^^ Suc k) s))
      \<le> Suc (length (res_of ((loop_body out ^^ k) s)))"
    using loop_body_res[of out "(loop_body out ^^ k) s"] by simp
  with Suc show ?case by simp
qed

lemma topo_loop_iterates:
  "\<exists>k. k \<le> loop_measure s \<and> queue_of ((loop_body out ^^ k) s) = [] \<and>
       topo_loop out s = (loop_body out ^^ k) s"
proof (induction out s rule: topo_loop.induct)
  case (1 out incoming q res)
  show ?case
  proof (cases "q = []")
    case True
    then have "queue_of ((loop_body out ^^ 0) (incoming, q, res)) = [] \<and>
       topo_loop out (incoming, q, res) = (loop_body out ^^ 0) (incoming, q, res)"
      by (simp add: queue_of_def)
    then show ?thesis by blast
  next
    case False
    let ?s = "(incoming, q, res)"
    from 1[OF False] obtain k where k: "k \<le> loop_measure (loop_body out ?s)"
      "queue_of ((loop_body out ^^ k) (loop_body out ?s)) = []"
      "topo_loop out (loop_body out ?s) = (loop_body out ^^ k) (loop_body out ?s)"
      by blast
    have "Suc k \<le> loop_measure ?s"
      using k(1) loop_body_measure[OF False, of out incoming res] by simp
    moreover have "queue_of ((loop_body out ^^ Suc k) ?s) = []"
      using k(2) by (simp add: funpow_swap1)
    moreover have "topo_loop out ?s = (loop_body out ^^ Suc k) ?s"
      using k(3) False by (simp add: funpow_swap1)
    ultimately show ?thesis by blast
  qed
qed

text \<open>
  Claim C6. For all nodes and edges (cyclic, parallel or dangling edges and repeated ids
  included) the loop of \<open>topologicalSort\<close> stops: after at most
  \<open>length nodes + length edges\<close> iterations of its body the ready queue is empty, and the
  list \<open>res\<close> of that state is what \<open>topologicalSort\<close> returns. Each iteration takes one
  id off the queue and pushes only ids whose counter has just dropped to zero, so the
  measure \<open>loop_measure\<close> decreases (lemma \<open>loop_body_measure\<close>). The ids ever dequeued,
  which are the ids ever enqueued, are at most \<open>length nodes + length edges\<close>.
\<close>

theorem topologicalSort_terminates:
  "(\<exists>k. k \<le> length nodes + length edges \<and>
       queue_of ((loop_body (fst (init_state nodes edges)) ^^ k) (snd (init_state nodes edges))) = [] \<and>
       topologicalSort nodes edges =
         res_of ((loop_body (fst (init_state nodes edges)) ^^ k) (snd (init_state nodes edges)))) \<and>
   length (topologicalSort nodes edges) \<le> length nodes + length edges"
proof -
  obtain out s where i: "init_state nodes edges = (out, s)"
    by (cases "init_state nodes edges")
  obtain m q res where s: "s = (m, q, res)" by (cases s)
  from topo_loop_iterates[of s out] obtain k where k: "k \<le> loop_measure s"
    "queue_of ((loop_body out ^^ k) s) = []" "topo_loop out s = (loop_body out ^^ k) s"
    by blast
  have le: "k \<le> length nodes + length edges"
    using k(1) init_measure[OF i] by simp
  have r: "topologicalSort nodes edges = res_of ((loop_body out ^^ k) s)"
    by (simp add: topologicalSort_def i k(3) res_of_def split: prod.splits)
  have "res_of s = []"
    using init_state_eq(4)[OF i[unfolded s]] by (simp add: s res_of_def)
  with funpow_loop_body_res[of k out s] have "length (topologicalSort nodes edges) \<le> k"
    by (simp add: r)
  with le have "length (topologicalSort nodes edges) \<le> length nodes + length edges"
    by simp
  with le r k(2) show ?thesis by (auto simp: i)
qed

subsection \<open>index_of\<close>

lemma index_of_less: "x \<in> set xs \<Longrightarrow> index_of xs x < length xs"
  by (induction xs) auto

lemma index_of_append:
  "index_of (xs @ ys) x = (if x \<in> set xs then index_of xs x else length xs + index_of ys x)"
  by (induction xs) auto

lemma nth_index_of: "x \<in> set xs \<Longrightarrow> xs ! index_of xs x = x"
  by (induction xs) auto

subsection \<open>The inner loop\<close>

lemma fold_relax_incoming:
  "incoming_get (fst (fold relax us (m, q))) u = incoming_get m u - int (count_list us u)"
proof (induction us arbitrary: m q)
  case Nil
  then show ?case by simp
next
  case (Cons a us)
  obtain m1 q1 where r: "relax a (m, q) = (m1, q1)"
    by (cases "relax a (m, q)")
  then have m1: "m1 = AList.update a (incoming_get m a - 1) m"
    by (simp add: relax_def Let_def)
  have "incoming_get (fst (fold relax (a # us) (m, q))) u = incoming_get m1 u - int (count_list us u)"
    using Cons.IH[of m1 q1] r by simp
  then show ?case by (simp add: m1 incoming_get_update)
qed

lemma fold_relax_queue:
  "\<exists>pushed. snd (fold relax us (m, q)) = q @ pushed \<and> distinct pushed \<and>
     set pushed = {u \<in> set us. 1 \<le> incoming_get m u \<and> incoming_get m u \<le> int (count_list us u)}"
proof (induction us arbitrary: m q)
  case Nil
  then show ?case by simp
next
  case (Cons a us)
  obtain m1 q1 where r: "relax a (m, q) = (m1, q1)"
    by (cases "relax a (m, q)")
  then have m1: "m1 = AList.update a (incoming_get m a - 1) m"
    and q1: "q1 = (if incoming_get m a = 1 then q @ [a] else q)"
    by (auto simp: relax_def Let_def incoming_get_update)
  from Cons.IH[of m1 q1] obtain pushed where p: "snd (fold relax us (m1, q1)) = q1 @ pushed"
    "distinct pushed"
    "set pushed = {u \<in> set us. 1 \<le> incoming_get m1 u \<and> incoming_get m1 u \<le> int (count_list us u)}"
    by blast
  have f: "snd (fold relax (a # us) (m, q)) = q1 @ pushed"
    using r p(1) by simp
  have pos: "0 < count_list us a \<Longrightarrow> a \<in> set us"
    by (metis count_list_0_iff less_numeral_extra(3))
  show ?case
  proof (cases "incoming_get m a = 1")
    case True
    have "a \<notin> set pushed"
      using True by (simp add: p(3) m1 incoming_get_update)
    moreover have "set (a # pushed) =
      {u \<in> set (a # us). 1 \<le> incoming_get m u \<and> incoming_get m u \<le> int (count_list (a # us) u)}"
      using True by (auto simp: p(3) m1 incoming_get_update)
    ultimately have "snd (fold relax (a # us) (m, q)) = q @ (a # pushed) \<and> distinct (a # pushed) \<and>
      set (a # pushed) =
      {u \<in> set (a # us). 1 \<le> incoming_get m u \<and> incoming_get m u \<le> int (count_list (a # us) u)}"
      using p(2) True unfolding f by (simp add: q1)
    then show ?thesis by blast
  next
    case False
    have "set pushed =
      {u \<in> set (a # us). 1 \<le> incoming_get m u \<and> incoming_get m u \<le> int (count_list (a # us) u)}"
      using False pos by (auto simp: p(3) m1 incoming_get_update)
    then have "snd (fold relax (a # us) (m, q)) = q @ pushed \<and> distinct pushed \<and>
      set pushed =
      {u \<in> set (a # us). 1 \<le> incoming_get m u \<and> incoming_get m u \<le> int (count_list (a # us) u)}"
      using p(2) False unfolding f by (simp add: q1)
    then show ?thesis by blast
  qed
qed

lemma count_list_successors:
  "count_list (successors edges v) u = length (filter (\<lambda>e. source e = v \<and> target e = u) edges)"
  by (induction edges) (auto simp: successors_def)

lemma remaining_in_snoc:
  "v \<notin> set res \<Longrightarrow>
   remaining_in edges res u = remaining_in edges (res @ [v]) u + count_list (successors edges v) u"
  unfolding count_list_successors remaining_in_def
  by (induction edges) auto

lemma remaining_in_zero:
  "remaining_in edges res u = 0 \<longleftrightarrow> (\<forall>e \<in> set edges. target e = u \<longrightarrow> source e \<in> set res)"
  by (auto simp: remaining_in_def filter_empty_conv)

subsection \<open>The invariant of the loop\<close>

lemma kahn_inv_step:
  assumes inv: "kahn_inv nodes edges (m, v # q0, res)"
    and out: "\<And>x. out_get out x = successors edges x"
  shows "kahn_inv nodes edges (loop_body out (m, v # q0, res))"
proof -
  let ?us = "successors edges v"
  obtain m' q' where f: "fold relax ?us (m, q0) = (m', q')"
    by (cases "fold relax ?us (m, q0)")
  have body: "loop_body out (m, v # q0, res) = (m', q', res @ [v])"
    by (simp add: out f)
  note inv' = inv[unfolded kahn_inv_def prod.case]
  have dist: "distinct (res @ v # q0)"
    using inv' by blast
  have cnt: "incoming_get m u = int (remaining_in edges res u)" for u
    using inv' by blast
  have zero: "incoming_get m u = 0" if "u \<in> set (res @ v # q0)" for u
    using inv' that by blast
  have ready: "u \<in> set (res @ v # q0)"
    if "u \<in> node_ids nodes \<union> edge_targets edges" "incoming_get m u = 0" for u
    using inv' that by blast
  have ord: "source e \<in> set res \<and> index_of res (source e) < index_of res (target e)"
    if "e \<in> set edges" "target e \<in> set res" for e
    using inv' that by blast
  have vres: "v \<notin> set res" using dist by auto
  have m': "incoming_get m' u = incoming_get m u - int (count_list ?us u)" for u
    using fold_relax_incoming[of ?us m q0 u] f by simp
  have cnt': "incoming_get m' u = int (remaining_in edges (res @ [v]) u)" for u
    using remaining_in_snoc[OF vres, of edges u] by (simp add: m' cnt)
  obtain pushed where q': "q' = q0 @ pushed" and dp: "distinct pushed"
    and sp: "set pushed = {u \<in> set ?us. 1 \<le> incoming_get m u \<and> incoming_get m u \<le> int (count_list ?us u)}"
    using fold_relax_queue[of ?us m q0] f by auto
  have fresh: "u \<notin> set (res @ v # q0)" if "u \<in> set pushed" for u
  proof
    assume "u \<in> set (res @ v # q0)"
    then have "incoming_get m u = 0" by (rule zero)
    with that show False by (simp add: sp)
  qed
  have 1: "distinct ((res @ [v]) @ q')"
    using dist dp fresh by (auto simp: q')
  have 3: "incoming_get m' u = 0" if "u \<in> set ((res @ [v]) @ q')" for u
  proof -
    have "incoming_get m' u \<le> 0"
    proof (cases "u \<in> set pushed")
      case True
      then show ?thesis by (simp add: sp m')
    next
      case False
      with that have "u \<in> set (res @ v # q0)" by (auto simp: q')
      then have "incoming_get m u = 0" by (rule zero)
      then show ?thesis by (simp add: m')
    qed
    then show ?thesis by (simp add: cnt')
  qed
  have 4: "u \<in> set ((res @ [v]) @ q')"
    if "u \<in> node_ids nodes \<union> edge_targets edges" "incoming_get m' u = 0" for u
  proof (cases "incoming_get m u = 0")
    case True
    from ready[OF that(1) True] show ?thesis by (auto simp: q')
  next
    case False
    then have pos: "1 \<le> incoming_get m u" by (simp add: cnt)
    from that(2) have eq: "incoming_get m u = int (count_list ?us u)" by (simp add: m')
    with pos have "count_list ?us u \<noteq> 0" by simp
    then have "u \<in> set ?us" by (simp add: count_list_0_iff)
    with pos eq have "u \<in> set pushed" by (simp add: sp)
    then show ?thesis by (simp add: q')
  qed
  have 5: "source e \<in> set (res @ [v]) \<and>
           index_of (res @ [v]) (source e) < index_of (res @ [v]) (target e)"
    if e: "e \<in> set edges" "target e \<in> set (res @ [v])" for e
  proof (cases "target e \<in> set res")
    case True
    from ord[OF e(1) True] True show ?thesis by (simp add: index_of_append)
  next
    case False
    with e(2) have t: "target e = v" by simp
    have "incoming_get m v = 0" by (rule zero) simp
    then have "remaining_in edges res v = 0" by (simp add: cnt)
    then have s: "source e \<in> set res"
      using e(1) t by (simp add: remaining_in_zero)
    then show ?thesis
      using vres index_of_less[OF s] by (simp add: index_of_append t)
  qed
  show ?thesis
    unfolding body kahn_inv_def
    using 1 3 4 5 cnt' by (simp only: prod.case) blast
qed

lemma kahn_inv_loop:
  assumes "kahn_inv nodes edges s"
    and "\<And>x. out_get out x = successors edges x"
  shows "kahn_inv nodes edges (topo_loop out s) \<and> queue_of (topo_loop out s) = []"
  using assms
proof (induction out s rule: topo_loop.induct)
  case (1 out incoming q res)
  show ?case
  proof (cases q)
    case Nil
    then show ?thesis using "1.prems"(1) by (simp add: queue_of_def)
  next
    case (Cons v q0)
    then have ne: "q \<noteq> []" by simp
    have "kahn_inv nodes edges (loop_body out (incoming, q, res))"
      using kahn_inv_step[of nodes edges incoming v q0 res out] "1.prems" Cons by simp
    from "1.IH"[OF ne this "1.prems"(2)] show ?thesis
      using ne by simp
  qed
qed

lemma kahn_inv_init:
  assumes d: "distinct (map nid nodes)"
    and i: "init_state nodes edges = (out, s)"
  shows "kahn_inv nodes edges s"
proof -
  obtain m q res where s: "s = (m, q, res)" by (cases s)
  note e = init_state_eq[OF i[unfolded s]]
  have deg: "in_degree edges u = remaining_in edges [] u" for u
    by (simp add: in_degree_def remaining_in_def)
  have 1: "distinct q"
    unfolding e(3) using d by (simp add: distinct_map_filter)
  have 3: "incoming_get m u = 0" if "u \<in> set q" for u
    using that by (auto simp: e(1) e(3))
  have 4: "u \<in> set q"
    if "u \<in> node_ids nodes \<union> edge_targets edges" "incoming_get m u = 0" for u
  proof -
    from that(2) have z: "in_degree edges u = 0" by (simp add: e(1))
    then have "u \<notin> edge_targets edges"
      by (auto simp: in_degree_def edge_targets_def filter_empty_conv)
    with that(1) have "u \<in> node_ids nodes" by simp
    then show ?thesis using z by (auto simp: e(3) node_ids_def)
  qed
  show ?thesis
    unfolding s kahn_inv_def e(4)
    using 1 3 4 by (simp add: e(1) deg)
qed

lemma kahn_inv_final:
  assumes d: "distinct (map nid nodes)"
  shows "\<exists>m. kahn_inv nodes edges (m, [], topologicalSort nodes edges)"
proof -
  obtain out s where i: "init_state nodes edges = (out, s)"
    by (cases "init_state nodes edges")
  obtain m0 q0 r0 where s: "s = (m0, q0, r0)" by (cases s)
  have o: "out_get out x = successors edges x" for x
    by (rule init_state_eq(2)[OF i[unfolded s]])
  obtain m q res where t: "topo_loop out s = (m, q, res)"
    by (cases "topo_loop out s")
  have "kahn_inv nodes edges (topo_loop out s) \<and> queue_of (topo_loop out s) = []"
    by (rule kahn_inv_loop[OF kahn_inv_init[OF d i] o])
  then have "kahn_inv nodes edges (m, q, res)" and "q = []"
    unfolding t queue_of_def prod.case by blast+
  then have "kahn_inv nodes edges (m, [], res)"
    by simp
  moreover have "topologicalSort nodes edges = res"
    by (simp add: topologicalSort_def i t)
  ultimately show ?thesis by auto
qed

subsection \<open>The returned sequence\<close>

lemma acyclic_empty: "acyclic {}"
  by (simp add: acyclic_def)

lemma topo_loop_ids:
  assumes "set (queue_of s) \<union> set (res_of s) \<subseteq> S"
    and "\<And>x. set (out_get out x) \<subseteq> S"
  shows "set (res_of (topo_loop out s)) \<subseteq> S"
  using assms
proof (induction out s rule: topo_loop.induct)
  case (1 out incoming q res)
  show ?case
  proof (cases q)
    case Nil
    then show ?thesis using "1.prems"(1) by (simp add: queue_of_def res_of_def)
  next
    case (Cons v q0)
    then have ne: "q \<noteq> []" by simp
    obtain m' q' where f: "fold relax (out_get out v) (incoming, q0) = (m', q')"
      by (cases "fold relax (out_get out v) (incoming, q0)")
    obtain pushed where q': "q' = q0 @ pushed" and p: "set pushed \<subseteq> set (out_get out v)"
      using fold_relax_queue[of "out_get out v" incoming q0] f by auto
    from p "1.prems"(2)[of v] have "set pushed \<subseteq> S"
      by (rule subset_trans)
    moreover have "set q0 \<subseteq> S"
      using "1.prems"(1) Cons by (simp add: queue_of_def)
    ultimately have "set q' \<subseteq> S"
      by (simp add: q')
    then have "set (queue_of (loop_body out (incoming, q, res))) \<union>
               set (res_of (loop_body out (incoming, q, res))) \<subseteq> S"
      using "1.prems"(1) Cons by (simp add: f queue_of_def res_of_def)
    from "1.IH"[OF ne this "1.prems"(2)] show ?thesis using ne by simp
  qed
qed

lemma topologicalSort_known_ids:
  "set (topologicalSort nodes edges) \<subseteq> node_ids nodes \<union> edge_targets edges"
proof -
  obtain out s where i: "init_state nodes edges = (out, s)"
    by (cases "init_state nodes edges")
  obtain m q res where s: "s = (m, q, res)" by (cases s)
  note e = init_state_eq[OF i[unfolded s]]
  have o: "set (out_get out x) \<subseteq> node_ids nodes \<union> edge_targets edges" for x
    by (auto simp: e(2) successors_def edge_targets_def)
  have "set (queue_of s) \<union> set (res_of s) \<subseteq> node_ids nodes \<union> edge_targets edges"
    by (auto simp: s queue_of_def res_of_def e(3) e(4) node_ids_def)
  then have "set (res_of (topo_loop out s)) \<subseteq> node_ids nodes \<union> edge_targets edges"
    using o by (rule topo_loop_ids)
  then show ?thesis
    by (simp add: topologicalSort_def i res_of_def split_beta)
qed

text \<open>
  Claim C5, as amended. \<open>topologicalSort\<close> is total: an edge whose source or target is no
  node id raises nothing. Every element of the returned sequence is the id of a node or
  the target of an edge: an unknown id that is the target of an edge is pushed like any
  other id when its counter reaches zero, and an id that occurs only as a source of edges
  is never output.
\<close>

theorem topologicalSort_ids:
  "set (topologicalSort nodes edges) \<subseteq> node_ids nodes \<union> edge_targets edges"
  by (rule topologicalSort_known_ids)

text \<open>
  The claim as stated (every element of the returned sequence is a node id) fails on
  the single node \<open>a\<close> with the edge from \<open>a\<close> to the unknown id \<open>x\<close>: the result is
  \<open>[a, x]\<close>.
\<close>

theorem topologicalSort_ids_counterexample:
  "''x'' \<in> set (topologicalSort [plain_node ''a'' ''Data''] [\<lparr>source = ''a'', target = ''x''\<rparr>]) \<and>
   ''x'' \<notin> node_ids [plain_node ''a'' ''Data'']"
  by code_simp

text \<open>
  Claim C3. For a node set (a list of nodes with pairwise distinct ids, as the data model
  requires) and any edges (parallel, dangling and cyclic ones included), the returned
  sequence has no repetition, and for every edge whose source and target both appear in
  it, the index of the source is less than the index of the target.
\<close>

theorem topologicalSort_respects_edges:
  assumes "distinct (map nid nodes)"
  shows "distinct (topologicalSort nodes edges) \<and>
     (\<forall>e \<in> set edges.
        source e \<in> set (topologicalSort nodes edges) \<and>
        target e \<in> set (topologicalSort nodes edges) \<longrightarrow>
        index_of (topologicalSort nodes edges) (source e)
          < index_of (topologicalSort nodes edges) (target e))"
proof -
  from kahn_inv_final[OF assms, of edges] obtain m
    where "kahn_inv nodes edges (m, [], topologicalSort nodes edges)" ..
  note inv = this[unfolded kahn_inv_def prod.case]
  have "distinct (topologicalSort nodes edges)"
    using inv by simp
  moreover have "index_of (topologicalSort nodes edges) (source e)
          < index_of (topologicalSort nodes edges) (target e)"
    if "e \<in> set edges" "target e \<in> set (topologicalSort nodes edges)" for e
    using inv that by blast
  ultimately show ?thesis by blast
qed

theorem topologicalSort_respects_edges_witness:
  "distinct (map nid chain_nodes) \<and>
   topologicalSort chain_nodes chain_edges = [''a'', ''b'', ''c''] \<and>
   index_of (topologicalSort chain_nodes chain_edges) ''a''
     < index_of (topologicalSort chain_nodes chain_edges) ''b''"
proof -
  have d: "distinct (map nid chain_nodes)"
    by (simp add: chain_nodes_def plain_node_def)
  have r: "topologicalSort chain_nodes chain_edges = [''a'', ''b'', ''c'']"
    by code_simp
  have e: "\<lparr>source = ''a'', target = ''b''\<rparr> \<in> set chain_edges"
    by (simp add: chain_edges_def)
  from topologicalSort_respects_edges[OF d, of chain_edges] e
  have "source \<lparr>source = ''a'', target = ''b''\<rparr> \<in> set (topologicalSort chain_nodes chain_edges) \<and>
        target \<lparr>source = ''a'', target = ''b''\<rparr> \<in> set (topologicalSort chain_nodes chain_edges) \<longrightarrow>
        index_of (topologicalSort chain_nodes chain_edges) (source \<lparr>source = ''a'', target = ''b''\<rparr>)
          < index_of (topologicalSort chain_nodes chain_edges) (target \<lparr>source = ''a'', target = ''b''\<rparr>)"
    by blast
  then have "index_of (topologicalSort chain_nodes chain_edges) ''a''
     < index_of (topologicalSort chain_nodes chain_edges) ''b''"
    by (simp add: r)
  with d r show ?thesis by blast
qed

text \<open>
  The hypothesis on the ids cannot be dropped: when an id occurs twice in the node list
  it is dequeued twice, the counters of its targets are decremented twice, and a target
  can be output before another of its sources.
\<close>

lemma topologicalSort_repeated_id:
  "topologicalSort
     [plain_node ''a'' ''Data'', plain_node ''a'' ''Data'', plain_node ''d'' ''Data'',
      plain_node ''b'' ''Data'', plain_node ''c'' ''Data'']
     [\<lparr>source = ''a'', target = ''b''\<rparr>, \<lparr>source = ''c'', target = ''b''\<rparr>,
      \<lparr>source = ''d'', target = ''c''\<rparr>]
   = [''a'', ''a'', ''d'', ''b'', ''c'']"
  by code_simp

text \<open>
  Claim C4, as amended. For a node set with pairwise distinct ids and edges that all join
  node ids (no dangling edge) and induce no cycle, the returned sequence has as many
  elements as there are nodes.
\<close>

theorem topologicalSort_complete:
  assumes d: "distinct (map nid nodes)"
    and closed: "\<forall>e \<in> set edges. source e \<in> node_ids nodes \<and> target e \<in> node_ids nodes"
    and acyc: "acyclic (edge_rel edges)"
  shows "length (topologicalSort nodes edges) = length nodes"
proof -
  let ?res = "topologicalSort nodes edges"
  from kahn_inv_final[OF d, of edges] obtain m
    where "kahn_inv nodes edges (m, [], ?res)" ..
  note inv = this[unfolded kahn_inv_def prod.case]
  have dist: "distinct ?res" using inv by simp
  have cnt: "incoming_get m u = int (remaining_in edges ?res u)" for u
    using inv by blast
  have ready: "u \<in> set ?res" if "u \<in> node_ids nodes" "incoming_get m u = 0" for u
    using inv that by simp
  have sub: "set ?res \<subseteq> node_ids nodes"
  proof -
    have "edge_targets edges \<subseteq> node_ids nodes"
      using closed by (auto simp: edge_targets_def)
    with topologicalSort_known_ids[of nodes edges] show ?thesis by blast
  qed
  have "wf (edge_rel edges)"
    by (rule finite_acyclic_wf[OF _ acyc]) (simp add: edge_rel_def)
  have sup: "node_ids nodes \<subseteq> set ?res"
  proof (rule ccontr)
    assume "\<not> node_ids nodes \<subseteq> set ?res"
    then obtain x where "x \<in> node_ids nodes - set ?res" by blast
    with \<open>wf (edge_rel edges)\<close> obtain z where z: "z \<in> node_ids nodes - set ?res"
      and zmin: "\<And>y. (y, z) \<in> edge_rel edges \<Longrightarrow> y \<notin> node_ids nodes - set ?res"
      by (rule wfE_min) blast
    from z ready[of z] have "incoming_get m z \<noteq> 0" by blast
    then have "remaining_in edges ?res z \<noteq> 0" by (simp add: cnt)
    then obtain e where e: "e \<in> set edges" "target e = z" "source e \<notin> set ?res"
      by (auto simp: remaining_in_zero)
    then have "(source e, z) \<in> edge_rel edges" by (auto simp: edge_rel_def)
    moreover have "source e \<in> node_ids nodes - set ?res"
      using closed e by blast
    ultimately show False using zmin by blast
  qed
  have "length ?res = card (set ?res)"
    using dist by (simp add: distinct_card)
  also have "set ?res = set (map nid nodes)"
    using sub sup by (auto simp: node_ids_def)
  also have "card (set (map nid nodes)) = length nodes"
    using d by (metis distinct_card length_map)
  finally show ?thesis .
qed

theorem topologicalSort_complete_witness:
  "distinct (map nid chain_nodes) \<and> acyclic (edge_rel chain_edges) \<and>
   length (topologicalSort chain_nodes chain_edges) = 3"
proof -
  have d: "distinct (map nid chain_nodes)"
    by (simp add: chain_nodes_def plain_node_def)
  have c: "\<forall>e \<in> set chain_edges. source e \<in> node_ids chain_nodes \<and> target e \<in> node_ids chain_nodes"
    by (simp add: chain_edges_def chain_nodes_def node_ids_def plain_node_def)
  have "edge_rel chain_edges = {(''a'', ''b''), (''b'', ''c'')}"
    by (auto simp: edge_rel_def chain_edges_def)
  then have a: "acyclic (edge_rel chain_edges)"
    by (simp add: acyclic_empty rtrancl_insert)
  from topologicalSort_complete[OF d c a]
  have "length (topologicalSort chain_nodes chain_edges) = 3"
    by (simp add: chain_nodes_def)
  with d a show ?thesis by blast
qed

text \<open>
  The claim as stated includes dangling edges. It fails on the single node \<open>a\<close> with the
  edge from the unknown id \<open>x\<close> to \<open>a\<close>: the edges are acyclic, the counter of \<open>a\<close> never
  reaches zero and the result is empty.
\<close>

theorem topologicalSort_complete_counterexample:
  "acyclic (edge_rel [\<lparr>source = ''x'', target = ''a''\<rparr>]) \<and>
   length (topologicalSort [plain_node ''a'' ''Data''] [\<lparr>source = ''x'', target = ''a''\<rparr>])
     \<noteq> length [plain_node ''a'' ''Data'']"
proof -
  have "acyclic (edge_rel [\<lparr>source = ''x'', target = ''a''\<rparr>])"
    by (simp add: edge_rel_def acyclic_empty)
  moreover have "topologicalSort [plain_node ''a'' ''Data''] [\<lparr>source = ''x'', target = ''a''\<rparr>] = []"
    by code_simp
  ultimately show ?thesis by simp
qed

section \<open>Properties of validateGraph\<close>

lemma typeCount_zero: "typeCount nodes t = 0 \<longleftrightarrow> \<not> stage_present nodes t"
  by (auto simp: typeCount_def stage_present_def filter_empty_conv)

lemma msgs_distinct:
  "msg_no_model \<noteq> msg_no_loss" "msg_no_model \<noteq> msg_no_optimizer" "msg_no_model \<noteq> msg_cycle"
  "msg_no_loss \<noteq> msg_no_optimizer" "msg_no_loss \<noteq> msg_cycle" "msg_no_optimizer \<noteq> msg_cycle"
  by (simp_all add: msg_no_model_def msg_no_loss_def msg_no_optimizer_def msg_cycle_def)

text \<open>
  Claim C1, as amended. The validator evaluates the three required-stage checks, and its
  error list holds one entry for each of them that fails. The acyclicity check is
  evaluated only when all three stages are present: the cycle message is in the list
  exactly when Model, Loss and Optimizer nodes all exist and the sequence of
  \<open>topologicalSort\<close> is not as long as the node list. The list has no other entry and no
  entry twice, and \<open>ok\<close> holds exactly when it is empty.
\<close>

theorem validateGraph_errors:
  "(msg_no_model \<in> set (errors (validateGraph nodes edges)) \<longleftrightarrow> \<not> stage_present nodes ''Model'') \<and>
   (msg_no_loss \<in> set (errors (validateGraph nodes edges)) \<longleftrightarrow> \<not> stage_present nodes ''Loss'') \<and>
   (msg_no_optimizer \<in> set (errors (validateGraph nodes edges)) \<longleftrightarrow>
      \<not> stage_present nodes ''Optimizer'') \<and>
   (msg_cycle \<in> set (errors (validateGraph nodes edges)) \<longleftrightarrow>
      stage_present nodes ''Model'' \<and> stage_present nodes ''Loss'' \<and>
      stage_present nodes ''Optimizer'' \<and>
      length (topologicalSort nodes edges) \<noteq> length nodes) \<and>
   distinct (errors (validateGraph nodes edges)) \<and>
   set (errors (validateGraph nodes edges))
     \<subseteq> {msg_no_model, msg_no_loss, msg_no_optimizer, msg_cycle} \<and>
   (ok (validateGraph nodes edges) \<longleftrightarrow> errors (validateGraph nodes edges) = [])"
  using msgs_distinct
  by (simp add: validateGraph_def Let_def typeCount_zero)

text \<open>
  The claim as stated (all four checks evaluated, the cycle reported together with the
  missing stages) fails on one Data node with an edge to itself: the graph has a cycle,
  the sequence is empty, no Model node exists, and the cycle message is not reported.
\<close>

theorem validateGraph_errors_counterexample:
  "\<not> acyclic (edge_rel cyclic_edges) \<and>
   length (topologicalSort cyclic_nodes cyclic_edges) \<noteq> length cyclic_nodes \<and>
   \<not> stage_present cyclic_nodes ''Model'' \<and>
   msg_cycle \<notin> set (errors (validateGraph cyclic_nodes cyclic_edges))"
proof -
  have "\<not> acyclic (edge_rel cyclic_edges)"
    by (simp add: edge_rel_def cyclic_edges_def)
  moreover have "topologicalSort cyclic_nodes cyclic_edges = []"
    by code_simp
  moreover have "\<not> stage_present cyclic_nodes ''Model''"
    by (simp add: stage_present_def cyclic_nodes_def mk_node_def)
  moreover have "errors (validateGraph cyclic_nodes cyclic_edges)
      = [msg_no_model, msg_no_loss, msg_no_optimizer]"
    by (simp add: validateGraph_def typeCount_def cyclic_nodes_def mk_node_def)
  ultimately show ?thesis
    using msgs_distinct by (simp add: cyclic_nodes_def)
qed

section \<open>Properties of buildCode and downloadCode\<close>

text \<open>
  \<open>buildCode\<close> keeps the gate: when validation fails it stores the error comment and
  does not consult the emitter.
\<close>

lemma buildCode_gate:
  "\<not> ok (validateGraph (board_nodes b) (board_edges b)) \<Longrightarrow>
   buildCode b = Inr (b\<lparr>code := error_comment (errors (validateGraph (board_nodes b) (board_edges b)))\<rparr>)"
  by (simp add: buildCode_def Let_def)

text \<open>
  Claim C2, at its failing input. On the initial board (no node, no code yet) validation
  fails, and \<open>downloadCode\<close> still hands \<open>download\<close> the text of the emitter for that
  graph: \<open>buildCode\<close> stores the error comment for the next render, but the \<open>code\<close> of
  this render is empty, so \<^verbatim>\<open>code || generatePyTorchCode(nodes, edges, projectName)\<close>
  calls the emitter without validation.
\<close>

theorem downloadCode_invalid_graph:
  "\<not> ok (validateGraph (board_nodes empty_board) (board_edges empty_board)) \<and>
   downloadCode empty_board =
     (empty_board\<lparr>code := error_comment [msg_no_model, msg_no_loss, msg_no_optimizer]\<rparr>,
      Inr (''project.py'', js_join [nl] (header_block @ footer_block ''project'')))"
  by code_simp

section \<open>Properties of generatePyTorchCode\<close>

lemma code_lr_value:
  "nullish_default (get_prop (or_default ps (JObj [(''lr'', JNum ''0.001'')])) ''lr'') (JNum ''0.001'')
     = lr_value ps"
proof (cases ps)
  case None
  then show ?thesis by (simp add: or_default_def nullish_default_def lr_value_def)
next
  case (Some v)
  then show ?thesis
    by (cases v) (auto simp: or_default_def nullish_default_def lr_value_def
        split: option.splits json.splits)
qed

lemma generatePyTorchCode_lines:
  assumes "node_values (orderedNodes nodes edges) = Inr ns"
    and "generatePyTorchCode nodes edges pn = Inr text"
  shows "\<exists>ol trl. optimizer_block ns = Inr ol \<and> trainer_block ns = Inr trl \<and>
     text = js_join [nl] (header_block @ data_block ns @ transform_block ns @ split_block ns
                          @ model_block ns @ loss_block ns @ ol @ trl
                          @ metric_block ns @ footer_block pn)"
  using assms
  by (auto simp: generatePyTorchCode_def emit_lines_def split: sum.splits)

text \<open>
  For a valid graph whose node ids are pairwise distinct and whose edge targets are all
  node ids, the emitter works on all the nodes of the graph, and an Optimizer node is
  among them.
\<close>

lemma byId_get_node:
  assumes "distinct (map nid nodes)" and "n \<in> set nodes"
  shows "byId_get nodes (nid n) = Node n"
proof -
  have "distinct (map fst (rev (map (\<lambda>n. (nid n, n)) nodes)))"
    using assms(1) by (simp add: rev_map[symmetric] comp_def)
  moreover have "(nid n, n) \<in> set (rev (map (\<lambda>n. (nid n, n)) nodes))"
    using assms(2) by auto
  ultimately have "map_of (rev (map (\<lambda>n. (nid n, n)) nodes)) (nid n) = Some n"
    by (rule map_of_is_SomeI)
  then show ?thesis by (simp add: byId_get_def)
qed

lemma node_values_map_Node: "node_values (map Node ns) = Inr ns"
  by (induction ns) auto

lemma valid_graph_nodes:
  assumes v: "ok (validateGraph nodes edges)"
    and d: "distinct (map nid nodes)"
    and t: "edge_targets edges \<subseteq> node_ids nodes"
  shows "\<exists>ns opt. node_values (orderedNodes nodes edges) = Inr ns \<and> set ns = set nodes \<and>
           find_type ''Optimizer'' ns = Some opt"
proof -
  let ?order = "topologicalSort nodes edges"
  from v have len: "length ?order = length nodes"
    and present: "stage_present nodes ''Optimizer''"
    by (auto simp: validateGraph_def Let_def typeCount_zero split: if_splits)
  from kahn_inv_final[OF d, of edges] obtain m
    where "kahn_inv nodes edges (m, [], ?order)" ..
  then have dist: "distinct ?order"
    by (simp add: kahn_inv_def)
  have sub: "set ?order \<subseteq> node_ids nodes"
    using topologicalSort_known_ids[of nodes edges] t by blast
  have "card (set ?order) = card (node_ids nodes)"
    using dist d len by (metis distinct_card length_map node_ids_def list.set_map)
  with sub have eq: "set ?order = node_ids nodes"
    by (simp add: card_subset_eq node_ids_def)
  define pick where "pick i = (THE n. n \<in> set nodes \<and> nid n = i)" for i
  have pick: "pick (nid n) = n" if "n \<in> set nodes" for n
    unfolding pick_def using that d by (auto simp: distinct_map inj_on_def)
  have lookup: "byId_get nodes i = Node (pick i)" if "i \<in> set ?order" for i
  proof -
    from that eq obtain n where "n \<in> set nodes" "nid n = i"
      by (auto simp: node_ids_def)
    then show ?thesis using byId_get_node[OF d, of n] pick[of n] by simp
  qed
  have "map (byId_get nodes) ?order = map (\<lambda>i. Node (pick i)) ?order"
    using lookup by (simp cong: map_cong)
  then have "orderedNodes nodes edges = map Node (map pick ?order)"
    by (simp add: orderedNodes_def comp_def)
  then have nv: "node_values (orderedNodes nodes edges) = Inr (map pick ?order)"
    by (simp only: node_values_map_Node)
  have "set (map pick ?order) = pick ` nid ` set nodes"
    by (simp add: eq node_ids_def)
  also have "\<dots> = set nodes"
    using pick by (auto simp: image_iff)
  finally have s: "set (map pick ?order) = set nodes" .
  from present obtain o' where "o' \<in> set nodes" "type (data o') = ''Optimizer''"
    by (auto simp: stage_present_def)
  then have "find_type ''Optimizer'' (map pick ?order) \<noteq> None"
    unfolding find_type_def find_None_iff s by blast
  with nv s show ?thesis by blast
qed

text \<open>
  Claim C7, as amended. When the emitter returns a script and the nodes it emits (the
  orderer's sequence, resolved to nodes) contain an Optimizer node, as they do for a
  valid graph with distinct ids and no dangling edge target, the script is the
  header, data, transform, split, model and loss blocks, then the optimizer block, then
  the trainer, metric and save blocks, and the optimizer line reads
  \<^verbatim>\<open>lr=\<close> followed by the text of \<open>lr_value\<close> of the first such node's \<^verbatim>\<open>params\<close>: the
  value of \<^verbatim>\<open>params.lr\<close> as JavaScript prints it when it is present and not
  \<^verbatim>\<open>null\<close>, whatever its type, and \<^verbatim>\<open>0.001\<close> otherwise.
\<close>

theorem optimizer_line_lr:
  assumes "node_values (orderedNodes nodes edges) = Inr ns"
    and "find_type ''Optimizer'' ns = Some opt"
    and "generatePyTorchCode nodes edges pn = Inr text"
  shows "\<exists>lr trl. to_str (lr_value (params (data opt))) = Inr lr \<and>
     trainer_block ns = Inr trl \<and>
     text = js_join [nl] (header_block @ data_block ns @ transform_block ns @ split_block ns
                          @ model_block ns @ loss_block ns @ optimizer_lines lr @ trl
                          @ metric_block ns @ footer_block pn)"
proof -
  from generatePyTorchCode_lines[OF assms(1,3)] obtain ol trl
    where ol: "optimizer_block ns = Inr ol" and trl: "trainer_block ns = Inr trl"
      and t_eq: "text = js_join [nl] (header_block @ data_block ns @ transform_block ns
          @ split_block ns @ model_block ns @ loss_block ns @ ol @ trl
          @ metric_block ns @ footer_block pn)"
    by blast
  from ol assms(2) obtain lr where lr: "to_str (lr_value (params (data opt))) = Inr lr"
    and "ol = optimizer_lines lr"
    by (auto simp: optimizer_block_def param_text_def code_lr_value Let_def split: sum.splits)
  with trl t_eq show ?thesis by blast
qed

theorem optimizer_line_lr_witness:
  "ok (validateGraph e2e_nodes e2e_edges) \<and>
   node_values (orderedNodes e2e_nodes e2e_edges) = Inr e2e_nodes \<and>
   find_type ''Optimizer'' e2e_nodes =
     Some (mk_node ''n5'' ''Optimizer'' ''Optimizer'' (JObj [(''lr'', JNum ''0.01'')])) \<and>
   (\<exists>trl. generatePyTorchCode e2e_nodes e2e_edges ''project'' =
      Inr (js_join [nl] (header_block @ data_block e2e_nodes @ transform_block e2e_nodes
            @ split_block e2e_nodes @ model_block e2e_nodes @ loss_block e2e_nodes
            @ optimizer_lines ''0.01'' @ trl @ metric_block e2e_nodes @ footer_block ''project'')))"
proof -
  let ?opt = "mk_node ''n5'' ''Optimizer'' ''Optimizer'' (JObj [(''lr'', JNum ''0.01'')])"
  have 1: "node_values (orderedNodes e2e_nodes e2e_edges) = Inr e2e_nodes"
    by code_simp
  have 2: "find_type ''Optimizer'' e2e_nodes = Some ?opt"
    by code_simp
  have "generatePyTorchCode e2e_nodes e2e_edges ''project'' \<noteq> Inl TypeError"
    by code_simp
  then obtain script where 3: "generatePyTorchCode e2e_nodes e2e_edges ''project'' = Inr script"
    by (cases "generatePyTorchCode e2e_nodes e2e_edges ''project''") (auto intro: js_error.exhaust)
  have 4: "to_str (lr_value (params (data ?opt))) = Inr ''0.01''"
    by code_simp
  from optimizer_line_lr[OF 1 2 3] 4 3 have
    "\<exists>trl. generatePyTorchCode e2e_nodes e2e_edges ''project'' =
      Inr (js_join [nl] (header_block @ data_block e2e_nodes @ transform_block e2e_nodes
            @ split_block e2e_nodes @ model_block e2e_nodes @ loss_block e2e_nodes
            @ optimizer_lines ''0.01'' @ trl @ metric_block e2e_nodes @ footer_block ''project''))"
    by auto
  moreover have "ok (validateGraph e2e_nodes e2e_edges)"
    by code_simp
  ultimately show ?thesis using 1 2 by blast
qed

text \<open>
  The claim as stated (the default for a non-numeric \<^verbatim>\<open>lr\<close>) fails on a valid graph of
  a Model, a Loss and an Optimizer whose \<^verbatim>\<open>lr\<close> is the string \<^verbatim>\<open>fast\<close>: the specification's
  reading gives \<^verbatim>\<open>0.001\<close>, the emitted line reads \<^verbatim>\<open>lr=fast\<close>.
\<close>

theorem optimizer_line_lr_counterexample:
  "ok (validateGraph lr_string_nodes []) \<and>
   to_str (spec_lr (params (data (lr_string_nodes ! 2)))) = Inr ''0.001'' \<and>
   generatePyTorchCode lr_string_nodes [] ''project'' =
     Inr (js_join [nl] (header_block @ model_block lr_string_nodes @ loss_block lr_string_nodes
           @ optimizer_lines ''fast'' @ footer_block ''project'')) \<and>
   optimizer_lines ''fast'' \<noteq> optimizer_lines ''0.001''"
  by code_simp


lemma append_longer_neq: "length t < length s \<Longrightarrow> x @ s \<noteq> t"
  by (auto dest: arg_cong[where f = length])

lemma split_marker_header: "''# Split'' \<notin> set header_block"
  by (simp add: header_block_def)

lemma split_marker_data_lines: "''# Split'' \<notin> set (data_lines x)"
  by (cases x) (simp add: data_lines_def params_comment_def append_longer_neq)

lemma split_marker_data: "''# Split'' \<notin> set (data_block ns)"
  by (simp add: data_block_def Let_def split_marker_data_lines)

lemma split_marker_transform_lines: "''# Split'' \<notin> set (transform_lines x)"
  by (cases x) (simp add: transform_lines_def params_comment_def append_longer_neq)

lemma split_marker_transform: "''# Split'' \<notin> set (transform_block ns)"
  by (simp add: transform_block_def Let_def split_marker_transform_lines)

lemma split_marker_model: "''# Split'' \<notin> set (model_block ns)"
  by (simp add: model_block_def params_comment_def split: option.splits)

lemma split_marker_loss: "''# Split'' \<notin> set (loss_block ns)"
  by (simp add: loss_block_def split: option.splits)

lemma split_marker_optimizer: "optimizer_block ns = Inr ol \<Longrightarrow> ''# Split'' \<notin> set ol"
  by (auto simp: optimizer_block_def optimizer_lines_def Let_def split: option.splits sum.splits)

lemma split_marker_trainer: "trainer_block ns = Inr trl \<Longrightarrow> ''# Split'' \<notin> set trl"
  by (auto simp: trainer_block_def trainer_lines_def Let_def split: option.splits sum.splits)

lemma split_marker_metric: "''# Split'' \<notin> set (metric_block ns)"
  by (simp add: metric_block_def)

lemma split_marker_footer: "''# Split'' \<notin> set (footer_block pn)"
  by (simp add: footer_block_def)

text \<open>
  No block but the split block reads a Split node.
\<close>

lemma find_filter_implied:
  "(\<And>x. P x \<Longrightarrow> Q x) \<Longrightarrow> find P (filter Q xs) = find P xs"
  by (induction xs) auto

lemma of_type_without_split:
  "t \<noteq> ''Split'' \<Longrightarrow> of_type t (without_split ns) = of_type t ns"
  unfolding of_type_def without_split_def filter_filter
  by (rule filter_cong) auto

lemma find_type_without_split:
  "t \<noteq> ''Split'' \<Longrightarrow> find_type t (without_split ns) = find_type t ns"
  unfolding find_type_def without_split_def
  by (rule find_filter_implied) auto

lemma blocks_without_split:
  "data_block (without_split ns) = data_block ns"
  "transform_block (without_split ns) = transform_block ns"
  "model_block (without_split ns) = model_block ns"
  "loss_block (without_split ns) = loss_block ns"
  "optimizer_block (without_split ns) = optimizer_block ns"
  "trainer_block (without_split ns) = trainer_block ns"
  "metric_block (without_split ns) = metric_block ns"
  by (simp_all add: data_block_def transform_block_def model_block_def loss_block_def
      optimizer_block_def trainer_block_def metric_block_def
      of_type_without_split find_type_without_split)

text \<open>
  Claim C8, as amended. When the emitter returns a script and the nodes it emits contain
  a Split node, the script is exactly: the header, the data and transform blocks, one
  split block, and the model, loss, optimizer, trainer, metric and save blocks, where
  every block but the split block is that of the node list without its Split nodes. So
  there is exactly one split block and no other Split node produces output; none of the
  other blocks has the line \<^verbatim>\<open># Split\<close>. The block is that of the first Split node in
  dependency order, and it prints that node's \<^verbatim>\<open>params\<close> as they are when they are
  present and truthy (an empty mapping is printed as \<^verbatim>\<open>{}\<close>); the defaults are printed
  only when \<^verbatim>\<open>params\<close> is absent or falsy.
\<close>

theorem split_block_once:
  assumes "node_values (orderedNodes nodes edges) = Inr ns"
    and "find_type ''Split'' ns = Some sp"
    and "generatePyTorchCode nodes edges pn = Inr text"
  shows "\<exists>ol trl.
     optimizer_block (without_split ns) = Inr ol \<and>
     trainer_block (without_split ns) = Inr trl \<and>
     text = js_join [nl]
       (header_block @ data_block (without_split ns) @ transform_block (without_split ns)
        @ split_lines (case params (data sp) of
                         None \<Rightarrow> default_split_params
                       | Some v \<Rightarrow> if truthy v then v else default_split_params)
        @ model_block (without_split ns) @ loss_block (without_split ns) @ ol @ trl
        @ metric_block (without_split ns) @ footer_block pn) \<and>
     ''# Split'' \<notin> set (header_block @ data_block (without_split ns)
                            @ transform_block (without_split ns)) \<and>
     ''# Split'' \<notin> set (model_block (without_split ns) @ loss_block (without_split ns)
                            @ ol @ trl @ metric_block (without_split ns) @ footer_block pn)"
proof -
  from generatePyTorchCode_lines[OF assms(1,3)] obtain ol trl
    where ol: "optimizer_block ns = Inr ol" and trl: "trainer_block ns = Inr trl"
      and t_eq: "text = js_join [nl] (header_block @ data_block ns @ transform_block ns
          @ split_block ns @ model_block ns @ loss_block ns @ ol @ trl
          @ metric_block ns @ footer_block pn)"
    by blast
  have sb: "split_block ns =
      split_lines (case params (data sp) of
                     None \<Rightarrow> default_split_params
                   | Some v \<Rightarrow> if truthy v then v else default_split_params)"
    using assms(2) by (simp add: split_block_def or_default_def)
  have 3: "''# Split'' \<notin> set (header_block @ data_block ns @ transform_block ns)"
    using split_marker_header split_marker_data split_marker_transform by simp
  have 4: "''# Split'' \<notin> set (model_block ns @ loss_block ns @ ol @ trl
                                  @ metric_block ns @ footer_block pn)"
    using split_marker_model split_marker_loss split_marker_optimizer[OF ol]
      split_marker_trainer[OF trl] split_marker_metric split_marker_footer
    by simp
  from ol trl t_eq sb 3 4 show ?thesis
    unfolding blocks_without_split by (intro exI[of _ ol] exI[of _ trl]) simp
qed

theorem split_block_once_witness:
  "ok (validateGraph two_split_nodes two_split_edges) \<and>
   node_values (orderedNodes two_split_nodes two_split_edges) =
     Inr [two_split_nodes ! 0, two_split_nodes ! 2, two_split_nodes ! 3,
          two_split_nodes ! 4, two_split_nodes ! 1] \<and>
   find_type ''Split'' [two_split_nodes ! 0, two_split_nodes ! 2, two_split_nodes ! 3,
          two_split_nodes ! 4, two_split_nodes ! 1] = Some (two_split_nodes ! 4) \<and>
   without_split [two_split_nodes ! 0, two_split_nodes ! 2, two_split_nodes ! 3,
          two_split_nodes ! 4, two_split_nodes ! 1]
     = [two_split_nodes ! 0, two_split_nodes ! 2, two_split_nodes ! 3] \<and>
   generatePyTorchCode two_split_nodes two_split_edges ''project'' =
     Inr (js_join [nl]
       (header_block @ split_lines (JObj [(''train'', JNum ''0.9'')])
        @ model_block [two_split_nodes ! 0] @ loss_block [two_split_nodes ! 2]
        @ optimizer_lines ''0.001'' @ footer_block ''project''))"
proof -
  let ?ns = "[two_split_nodes ! 0, two_split_nodes ! 2, two_split_nodes ! 3,
          two_split_nodes ! 4, two_split_nodes ! 1]"
  let ?ms = "[two_split_nodes ! 0, two_split_nodes ! 2, two_split_nodes ! 3]"
  have 0: "ok (validateGraph two_split_nodes two_split_edges)"
    by code_simp
  have 1: "node_values (orderedNodes two_split_nodes two_split_edges) = Inr ?ns"
    by code_simp
  have 2: "find_type ''Split'' ?ns = Some (two_split_nodes ! 4)"
    by code_simp
  have "generatePyTorchCode two_split_nodes two_split_edges ''project'' \<noteq> Inl TypeError"
    by code_simp
  then obtain script
    where 3: "generatePyTorchCode two_split_nodes two_split_edges ''project'' = Inr script"
    by (cases "generatePyTorchCode two_split_nodes two_split_edges ''project''")
       (auto intro: js_error.exhaust)
  have w: "without_split ?ns = ?ms"
    by code_simp
  have p: "(case params (data (two_split_nodes ! 4)) of
              None \<Rightarrow> default_split_params
            | Some v \<Rightarrow> if truthy v then v else default_split_params)
           = JObj [(''train'', JNum ''0.9'')]"
    by code_simp
  have b: "data_block ?ms = []" "transform_block ?ms = []"
    "model_block ?ms = model_block [two_split_nodes ! 0]"
    "loss_block ?ms = loss_block [two_split_nodes ! 2]"
    "optimizer_block ?ms = Inr (optimizer_lines ''0.001'')"
    "trainer_block ?ms = Inr []" "metric_block ?ms = []"
    by code_simp+
  from split_block_once[OF 1 2 3]
  have "script = js_join [nl]
       (header_block @ split_lines (JObj [(''train'', JNum ''0.9'')])
        @ model_block [two_split_nodes ! 0] @ loss_block [two_split_nodes ! 2]
        @ optimizer_lines ''0.001'' @ footer_block ''project'')"
    unfolding w p b by auto
  with 0 1 2 3 w show ?thesis by blast
qed

text \<open>
  The claim as stated (defaults supplied for absent entries) fails on a valid graph whose
  Split node has the empty mapping as \<^verbatim>\<open>params\<close>: the specification's reading gives the
  four defaults, the emitted block prints \<^verbatim>\<open>{}\<close>.
\<close>

theorem split_block_once_counterexample:
  "ok (validateGraph empty_split_nodes []) \<and>
   params (data (empty_split_nodes ! 0)) = Some (JObj []) \<and>
   spec_split_params (params (data (empty_split_nodes ! 0))) = default_split_params \<and>
   generatePyTorchCode empty_split_nodes [] ''project'' =
     Inr (js_join [nl] (header_block @ split_lines (JObj []) @ model_block empty_split_nodes
           @ loss_block empty_split_nodes @ optimizer_lines ''0.001'' @ footer_block ''project'')) \<and>
   split_lines (JObj []) \<noteq> split_lines default_split_params"
  by code_simp

text \<open>
  What does hold of the emitter on every graph: when it gets past the first read of
  \<^verbatim>\<open>n.data.type\<close>, the nodes it works on are nodes of the graph whose ids the orderer
  returned, so a node the orderer left out appears in no block.
\<close>

lemma node_values_Inr:
  "node_values vs = Inr ns \<Longrightarrow> vs = map Node ns"
proof (induction vs arbitrary: ns)
  case Nil
  then show ?case by simp
next
  case (Cons v vs)
  then show ?case
    by (cases v) (auto split: sum.splits)
qed

lemma byId_get_NodeD:
  "byId_get nodes i = Node n \<Longrightarrow> n \<in> set nodes \<and> nid n = i"
  by (auto simp: byId_get_def split: option.splits if_splits dest!: map_of_SomeD)

lemma emitted_nodes_drained:
  assumes "node_values (orderedNodes nodes edges) = Inr ns"
  shows "set ns \<subseteq> set nodes \<and> nid ` set ns \<subseteq> set (topologicalSort nodes edges)"
proof -
  have "n \<in> set nodes \<and> nid n \<in> set (topologicalSort nodes edges)" if "n \<in> set ns" for n
  proof -
    from node_values_Inr[OF assms] that have "Node n \<in> set (orderedNodes nodes edges)"
      by simp
    then obtain i where "i \<in> set (topologicalSort nodes edges)" "byId_get nodes i = Node n"
      by (auto simp: orderedNodes_def)
    then show ?thesis using byId_get_NodeD by blast
  qed
  then show ?thesis by blast
qed

text \<open>
  Claim C10, at its failing input. One Data node \<open>a\<close> and an edge from \<open>a\<close> to the id
  \<^verbatim>\<open>constructor\<close>, which no node has: the orderer returns both ids, \<^verbatim>\<open>byId\<close> answers the
  second with the inherited \<^verbatim>\<open>Object\<close> function, \<^verbatim>\<open>.filter(Boolean)\<close> keeps it, and
  reading its \<^verbatim>\<open>data.type\<close> throws.
\<close>

theorem generatePyTorchCode_inherited_id:
  "topologicalSort [mk_node ''a'' ''Data'' ''A'' (JObj [])]
     [\<lparr>source = ''a'', target = ''constructor''\<rparr>] = [''a'', ''constructor''] \<and>
   orderedNodes [mk_node ''a'' ''Data'' ''A'' (JObj [])]
     [\<lparr>source = ''a'', target = ''constructor''\<rparr>]
     = [Node (mk_node ''a'' ''Data'' ''A'' (JObj [])), Inherited] \<and>
   generatePyTorchCode [mk_node ''a'' ''Data'' ''A'' (JObj [])]
     [\<lparr>source = ''a'', target = ''constructor''\<rparr>] ''project'' = Inl TypeError"
  by code_simp

end
